theory Spec2Isabelle
  imports Main
begin

section \<open>JavaScript values and string primitives used by create-config.js\<close>

text \<open>
  The script \<^verbatim>\<open>scripts/create-config.js\<close> turns the documentation metadata of every
  package into the module tree of \<^verbatim>\<open>config.json\<close>.  Property reads on
  \<^verbatim>\<open>undefined\<close> throw a \<^verbatim>\<open>TypeError\<close> in JavaScript; these are the only
  exceptions the script can raise itself, so the model has one error value.
\<close>

datatype error = TypeError

text \<open>The primitive values the normaliser stores in a field: \<^verbatim>\<open>false\<close>,
  \<^verbatim>\<open>null\<close>, \<^verbatim>\<open>undefined\<close> or a string.\<close>

datatype jsv = JFalse | JNull | JUndefined | JStr string

text \<open>String concatenation with \<^verbatim>\<open>+\<close> prints a missing operand as
  \<^verbatim>\<open>undefined\<close>.\<close>

fun plus_str :: "string option \<Rightarrow> string" where
  "plus_str None = ''undefined''"
| "plus_str (Some s) = s"

text \<open>\<^verbatim>\<open>Array.prototype.join\<close> prints \<^verbatim>\<open>undefined\<close> and \<^verbatim>\<open>null\<close> elements as
  the empty string and \<^verbatim>\<open>false\<close> as the word.\<close>

fun join_elem :: "jsv \<Rightarrow> string" where
  "join_elem JFalse = ''false''"
| "join_elem JNull = []"
| "join_elem JUndefined = []"
| "join_elem (JStr s) = s"

fun join :: "string \<Rightarrow> jsv list \<Rightarrow> string" where
  "join sep [] = []"
| "join sep [x] = join_elem x"
| "join sep (x # y # ys) = join_elem x @ sep @ join sep (y # ys)"

fun startsWith :: "string \<Rightarrow> string \<Rightarrow> bool" where
  "startsWith [] s = True"
| "startsWith (p # ps) [] = False"
| "startsWith (p # ps) (c # cs) = (p = c \<and> startsWith ps cs)"

text \<open>\<^verbatim>\<open>s.indexOf(pat) !== -1\<close>.\<close>

fun str_includes :: "string \<Rightarrow> string \<Rightarrow> bool" where
  "str_includes pat [] = (pat = [])"
| "str_includes pat (c # cs) = (startsWith pat (c # cs) \<or> str_includes pat cs)"

text \<open>\<^verbatim>\<open>s.split(sep)[0]\<close> for a separator that cannot match the empty string: the
  text before the first match, or all of \<^verbatim>\<open>s\<close> when there is none.\<close>

fun split_head :: "string \<Rightarrow> string \<Rightarrow> string" where
  "split_head sep [] = []"
| "split_head sep (c # cs) = (if startsWith sep (c # cs) then [] else c # split_head sep cs)"

text \<open>\<^verbatim>\<open>s.replace(pat, new)\<close> with a string pattern (and a replacement without
  \<^verbatim>\<open>$\<close>): only the first match is replaced.\<close>

fun replace_first :: "string \<Rightarrow> string \<Rightarrow> string \<Rightarrow> string" where
  "replace_first pat new [] = (if pat = [] then new else [])"
| "replace_first pat new (c # cs) =
     (if startsWith pat (c # cs) then new @ drop (length pat) (c # cs)
      else c # replace_first pat new cs)"

text \<open>\<^verbatim>\<open>toUpperCase\<close> on the ASCII letters; every other character is kept, so
  names are taken to be ASCII.\<close>

definition upper_char :: "char \<Rightarrow> char" where
  "upper_char c =
     (let n = (of_char c :: nat) in if 97 \<le> n \<and> n \<le> 122 then char_of (n - 32) else c)"

definition toUpperCase :: "string \<Rightarrow> string" where
  "toUpperCase s = map upper_char s"

definition nl :: char where
  "nl = CHR 0x0A"

definition addToMap :: string where
  "addToMap = ''//addToMap''"

definition anchor :: "string \<Rightarrow> string \<Rightarrow> string" where
  \<open>anchor link txt = ''<a target="_blank" href="'' @ link @ ''">'' @ txt @ ''</a>''\<close>

text \<open>Sequencing of computations that may throw: the first exception ends the
  evaluation.\<close>

definition thenE :: "error + 'a \<Rightarrow> ('a \<Rightarrow> error + 'b) \<Rightarrow> error + 'b" where
  "thenE r f = (case r of Inl e \<Rightarrow> Inl e | Inr x \<Rightarrow> f x)"

text \<open>\<^verbatim>\<open>Array.prototype.map\<close> with a callback that may throw.\<close>

fun mapE :: "('a \<Rightarrow> error + 'b) \<Rightarrow> 'a list \<Rightarrow> error + 'b list" where
  "mapE f [] = Inr []"
| "mapE f (x # xs) = thenE (f x) (\<lambda>y. thenE (mapE f xs) (\<lambda>ys. Inr (y # ys)))"

text \<open>\<^verbatim>\<open>Array.prototype.forEach\<close> over a callback that updates a state and may
  throw.\<close>

fun forEachE :: "('s \<Rightarrow> 'a \<Rightarrow> error + 's) \<Rightarrow> 'a list \<Rightarrow> 's \<Rightarrow> error + 's" where
  "forEachE f [] s = Inr s"
| "forEachE f (x # xs) s = thenE (f s x) (forEachE f xs)"

section \<open>Documentation metadata\<close>

text \<open>
  A node of a parsed description (the root, a block such as a paragraph, or an inline
  node).  Every field the script reads may be missing: \<^verbatim>\<open>children\<close>,
  \<^verbatim>\<open>value\<close>, \<^verbatim>\<open>url\<close>; a missing \<^verbatim>\<open>jsdoc\<close> flag is falsy.
\<close>

datatype mdnode =
  MdNode (md_children: "mdnode list option") (md_value: "string option")
    (md_url: "string option") (md_jsdoc: bool)

text \<open>
  A type expression.  \<^verbatim>\<open>ObjectTyped\<close> is a node whose \<^verbatim>\<open>type\<close> field is itself
  an object, \<^verbatim>\<open>OtherType\<close> a node of any other kind; both carry their
  \<^verbatim>\<open>name\<close> field when they have one.
\<close>

datatype tnode =
    UnionType "tnode list"
  | OptionalType tnode
  | NameExpression string
  | TypeApplication tnode "tnode list"
  | ObjectTyped "string option"
  | OtherType "string option"

text \<open>The \<^verbatim>\<open>name\<close> field of a type node.\<close>

fun name_of :: "tnode \<Rightarrow> string option" where
  "name_of (NameExpression n) = Some n"
| "name_of (ObjectTyped n) = n"
| "name_of (OtherType n) = n"
| "name_of (UnionType es) = None"
| "name_of (OptionalType e) = None"
| "name_of (TypeApplication e as) = None"

record example =
  ex_description :: string

text \<open>An entry of \<^verbatim>\<open>metadata.returns\<close> or \<^verbatim>\<open>metadata.throws\<close>.\<close>

record tagged =
  tg_type :: "tnode option"
  tg_description :: mdnode

text \<open>A documented property of a parameter.\<close>

record property =
  pr_name :: string
  pr_type :: "tnode option"
  pr_default :: "string option"
  pr_description :: mdnode

record param =
  pa_name :: string
  pa_type :: "tnode option"
  pa_description :: mdnode
  pa_lineNumber :: int
  pa_properties :: "property list option"

record metadata =
  mt_name :: string
  mt_description :: mdnode
  mt_examples :: "example list"
  mt_returns :: "tagged list option"
  mt_throws :: "tagged list option"
  mt_params :: "param list option"

section \<open>The manifest's paths\<close>

text \<open>\<^verbatim>\<open>docs.paths\<close>: a lookup from symbol name to reference link.\<close>

type_synonym paths = "string \<Rightarrow> string option"

text \<open>
  Lines 213 to 215: every key of \<^verbatim>\<open>docs.paths\<close> is stored again in upper case,
  in the order of \<^verbatim>\<open>Object.keys\<close>, reading the value the object holds at that
  moment.
\<close>

definition upperKey :: "paths \<Rightarrow> string \<Rightarrow> paths" where
  "upperKey p name = p(toUpperCase name := p name)"

definition upperPaths :: "(string \<times> string) list \<Rightarrow> paths" where
  "upperPaths ps = foldl upperKey (map_of ps) (map fst ps)"

text \<open>\<^verbatim>\<open>getLink\<close>: \<^verbatim>\<open>null\<close> is \<open>None\<close>; an undefined name has no
  \<^verbatim>\<open>toUpperCase\<close>, and an empty link is falsy.\<close>

fun getLink :: "paths \<Rightarrow> string option \<Rightarrow> error + string option" where
  "getLink paths None = Inl TypeError"
| "getLink paths (Some name) =
     Inr (case paths (toUpperCase name) of
            None \<Rightarrow> None
          | Some link \<Rightarrow> if link = [] then None else Some link)"

fun createLink :: "paths \<Rightarrow> string option \<Rightarrow> bool \<Rightarrow> error + jsv" where
  "createLink paths name addLink =
     thenE (getLink paths name) (\<lambda>link.
       if \<not> addLink \<or> link = None then Inr (case name of None \<Rightarrow> JUndefined | Some n \<Rightarrow> JStr n)
       else Inr (JStr (anchor (plus_str link) (plus_str name))))"

section \<open>Type rendering\<close>

text \<open>
  \<^verbatim>\<open>getType\<close> on a node that is present; \<^verbatim>\<open>getTypes\<close> is the map over the
  members of a union and \<^verbatim>\<open>getApplications\<close> the map over the arguments of a type
  application.
\<close>

fun getTypeNode :: "paths \<Rightarrow> tnode \<Rightarrow> bool \<Rightarrow> error + jsv"
  and getTypes :: "paths \<Rightarrow> tnode list \<Rightarrow> bool \<Rightarrow> error + jsv list"
  and getApplications :: "paths \<Rightarrow> tnode list \<Rightarrow> bool \<Rightarrow> error + jsv list" where
  "getTypeNode paths (UnionType elements) addLink =
     (case getTypes paths elements addLink of
        Inl e \<Rightarrow> Inl e
      | Inr rs \<Rightarrow> Inr (JStr (''('' @ join '' | '' rs @ '')'')))"
| "getTypeNode paths (OptionalType expression) addLink =
     Inr (JStr (''Optional: '' @ plus_str (name_of expression)))"
| "getTypeNode paths (ObjectTyped name) addLink = createLink paths name addLink"
| "getTypeNode paths (NameExpression name) addLink = createLink paths (Some name) addLink"
| "getTypeNode paths (TypeApplication expression applications) addLink =
     (case getApplications paths applications addLink of
        Inl e \<Rightarrow> Inl e
      | Inr rs \<Rightarrow> Inr (JStr (plus_str (name_of expression) @ '' <'' @ join '','' rs @ ''>'')))"
| "getTypeNode paths (OtherType name) addLink = Inr JUndefined"
| "getTypes paths [] addLink = Inr []"
| "getTypes paths (node # nodes) addLink =
     (case getTypeNode paths node addLink of
        Inl e \<Rightarrow> Inl e
      | Inr r \<Rightarrow>
          (case getTypes paths nodes addLink of Inl e \<Rightarrow> Inl e | Inr rs \<Rightarrow> Inr (r # rs)))"
| "getApplications paths [] addLink = Inr []"
| "getApplications paths (node # nodes) addLink =
     (case (case node of
              UnionType elements \<Rightarrow>
                (case getTypes paths elements addLink of
                   Inl e \<Rightarrow> Inl e
                 | Inr rs \<Rightarrow> Inr (JStr (''('' @ join '' | '' rs @ '')'')))
            | TypeApplication expression applications \<Rightarrow> getTypeNode paths node addLink
            | _ \<Rightarrow> createLink paths (name_of node) addLink) of
        Inl e \<Rightarrow> Inl e
      | Inr r \<Rightarrow>
          (case getApplications paths nodes addLink of
             Inl e \<Rightarrow> Inl e
           | Inr rs \<Rightarrow> Inr (r # rs)))"

fun getType :: "paths \<Rightarrow> tnode option \<Rightarrow> bool \<Rightarrow> error + jsv" where
  "getType paths None addLink = Inr JFalse"
| "getType paths (Some inNode) addLink = getTypeNode paths inNode addLink"

section \<open>Description rendering\<close>

text \<open>\<^verbatim>\<open>node.children[0].value\<close>.\<close>

fun firstValue :: "mdnode list \<Rightarrow> error + string option" where
  "firstValue [] = Inl TypeError"
| "firstValue (c # cs) = Inr (md_value c)"

fun of_opt :: "string option \<Rightarrow> jsv" where
  "of_opt None = JUndefined"
| "of_opt (Some s) = JStr s"

text \<open>The callback of the map in \<^verbatim>\<open>concatTags\<close>.\<close>

definition concatTag :: "paths \<Rightarrow> bool \<Rightarrow> mdnode \<Rightarrow> error + jsv" where
  "concatTag paths addLink node =
     (case md_children node of
        Some cs \<Rightarrow>
          thenE (firstValue cs) (\<lambda>v.
            if \<not> addLink then Inr (of_opt v)
            else thenE (getLink paths v) (\<lambda>l.
              let link = (if l = None \<or> \<not> md_jsdoc node then md_url node else l)
              in Inr (JStr (anchor (plus_str link) (plus_str v)))))
      | None \<Rightarrow> Inr (of_opt (md_value node)))"

definition concatTags :: "paths \<Rightarrow> mdnode list option \<Rightarrow> bool \<Rightarrow> error + jsv" where
  "concatTags paths inNode addLink =
     (case inNode of
        None \<Rightarrow> Inr JFalse
      | Some nodes \<Rightarrow>
          thenE (mapE (concatTag paths addLink) nodes) (\<lambda>outDescr.
            let s = replace_first '' .'' ''.'' (join '' '' outDescr)
            in Inr (JStr (if s = ''Optional parameters'' then s @ '': see below'' else s))))"

text \<open>\<^verbatim>\<open>d.children[0].children\<close> and \<^verbatim>\<open>!d.children.length\<close> for a description
  \<^verbatim>\<open>d\<close>.\<close>

definition firstBlock :: "mdnode \<Rightarrow> error + mdnode list option" where
  "firstBlock d =
     (case md_children d of
        None \<Rightarrow> Inl TypeError
      | Some [] \<Rightarrow> Inl TypeError
      | Some (b # bs) \<Rightarrow> Inr (md_children b))"

definition noChildren :: "mdnode \<Rightarrow> error + bool" where
  "noChildren d = (case md_children d of None \<Rightarrow> Inl TypeError | Some cs \<Rightarrow> Inr (cs = []))"

section \<open>The fields of a module entry\<close>

definition getDescription :: "paths \<Rightarrow> metadata \<Rightarrow> error + jsv" where
  "getDescription paths metadata =
     thenE (firstBlock (mt_description metadata)) (\<lambda>inNode. concatTags paths inNode True)"

fun getSnippet :: "metadata \<Rightarrow> jsv" where
  "getSnippet metadata =
     (case mt_examples metadata of
        [] \<Rightarrow> JFalse
      | ex # _ \<Rightarrow> JStr (split_head (nl # addToMap) (ex_description ex)))"

fun getExample :: "metadata \<Rightarrow> jsv" where
  "getExample metadata =
     (case mt_examples metadata of [] \<Rightarrow> JFalse | ex # _ \<Rightarrow> JStr (ex_description ex))"

fun hasMap :: "metadata \<Rightarrow> bool" where
  "hasMap metadata =
     (case mt_examples metadata of
        [] \<Rightarrow> False
      | ex # _ \<Rightarrow> str_includes addToMap (ex_description ex))"

text \<open>A field that holds \<^verbatim>\<open>false\<close>, \<^verbatim>\<open>null\<close> or an array.\<close>

datatype 'a field = FFalse | FNull | FArr "'a list"

text \<open>An element of \<^verbatim>\<open>returns\<close> or \<^verbatim>\<open>throws\<close>: \<^verbatim>\<open>false\<close> or
  \<^verbatim>\<open>{ type, desc }\<close>.\<close>

datatype tagout = TagFalse | TagRec (tag_type: jsv) (tag_desc: jsv)

text \<open>The callback of the map in \<^verbatim>\<open>getReturns\<close> and in \<^verbatim>\<open>getThrows\<close> (the
  two bodies are the same text).\<close>

definition tagEntry :: "paths \<Rightarrow> tagged \<Rightarrow> error + tagout" where
  "tagEntry paths result =
     thenE (noChildren (tg_description result)) (\<lambda>empty.
       if empty then Inr TagFalse
       else thenE (getType paths (tg_type result) False) (\<lambda>t.
            thenE (firstBlock (tg_description result)) (\<lambda>inNode.
            thenE (concatTags paths inNode False) (\<lambda>d. Inr (TagRec t d)))))"

definition getReturns :: "paths \<Rightarrow> metadata \<Rightarrow> error + tagout field" where
  "getReturns paths metadata =
     (case mt_returns metadata of
        None \<Rightarrow> Inr FFalse
      | Some rs \<Rightarrow> thenE (mapE (tagEntry paths) rs) (\<lambda>out. Inr (FArr out)))"

definition getThrows :: "paths \<Rightarrow> metadata \<Rightarrow> error + tagout field" where
  "getThrows paths metadata =
     (case mt_throws metadata of
        None \<Rightarrow> Inr FFalse
      | Some rs \<Rightarrow> thenE (mapE (tagEntry paths) rs) (\<lambda>out. Inr (FArr out)))"

text \<open>
  An element of the array \<^verbatim>\<open>getParams\<close> builds: the marker \<^verbatim>\<open>{ type: null }\<close>,
  \<^verbatim>\<open>false\<close>, or a record, whose \<^verbatim>\<open>_lineNum\<close> is there until it is deleted.
\<close>

datatype paramout =
    ParTypeNull
  | ParFalse
  | ParRec (Argument: string) (Type: jsv) (Description: jsv) (lineNum: "int option")

definition paramEntry :: "paths \<Rightarrow> param \<Rightarrow> error + paramout" where
  "paramEntry paths p =
     (case pa_type p of
        None \<Rightarrow> Inr ParTypeNull
      | Some t \<Rightarrow>
          thenE (noChildren (pa_description p)) (\<lambda>empty.
            if empty then Inr ParFalse
            else thenE (getType paths (Some t) True) (\<lambda>ty.
                 thenE (firstBlock (pa_description p)) (\<lambda>inNode.
                 thenE (concatTags paths inNode False) (\<lambda>d.
                   Inr (ParRec (pa_name p) ty d (Some (pa_lineNumber p))))))))"

text \<open>\<^verbatim>\<open>param.type !== null\<close>: only the marker has a \<^verbatim>\<open>type\<close> that is
  \<^verbatim>\<open>null\<close>; on \<^verbatim>\<open>false\<close> and on a record the field is undefined.\<close>

fun typeNotNull :: "paramout \<Rightarrow> bool" where
  "typeNotNull ParTypeNull = False"
| "typeNotNull ParFalse = True"
| "typeNotNull (ParRec a t d l) = True"

text \<open>\<^verbatim>\<open>param._lineNum\<close>, undefined on \<^verbatim>\<open>false\<close>.\<close>

fun lineNumOf :: "paramout \<Rightarrow> int option" where
  "lineNumOf (ParRec a t d l) = l"
| "lineNumOf ParFalse = None"
| "lineNumOf ParTypeNull = None"

text \<open>The comparator \<^verbatim>\<open>a._lineNum - b._lineNum\<close>; \<open>None\<close> is \<^verbatim>\<open>NaN\<close>, the
  difference when an operand is undefined.\<close>

fun compareLineNum :: "paramout \<Rightarrow> paramout \<Rightarrow> int option" where
  "compareLineNum a b =
     (case (lineNumOf a, lineNumOf b) of
        (Some x, Some y) \<Rightarrow> Some (x - y)
      | _ \<Rightarrow> None)"

text \<open>
  \<^verbatim>\<open>Array.prototype.sort\<close> with a comparator, as an insertion sort: each element
  moves left past the elements the comparator puts after it
  (\<^verbatim>\<open>comparefn(tmp, element) > 0\<close>); \<^verbatim>\<open>NaN\<close> is not greater than zero.  The
  sorted prefix is kept reversed.  With a consistent comparator this is the result of
  every stable sort, which the language asks for.  With \<^verbatim>\<open>NaN\<close> among the
  comparisons the language leaves the order to the implementation, and this definition
  fixes one such order; another engine may give another.
\<close>

fun insertLeft :: "('a \<Rightarrow> 'a \<Rightarrow> int option) \<Rightarrow> 'a \<Rightarrow> 'a list \<Rightarrow> 'a list" where
  "insertLeft cmp x [] = [x]"
| "insertLeft cmp x (y # ys) =
     (case cmp y x of
        Some order \<Rightarrow> if order > 0 then y # insertLeft cmp x ys else x # y # ys
      | None \<Rightarrow> x # y # ys)"

definition arraySort :: "('a \<Rightarrow> 'a \<Rightarrow> int option) \<Rightarrow> 'a list \<Rightarrow> 'a list" where
  "arraySort cmp xs = rev (foldl (\<lambda>pre x. insertLeft cmp x pre) [] xs)"

text \<open>\<^verbatim>\<open>delete param._lineNum\<close>.\<close>

fun deleteLineNum :: "paramout \<Rightarrow> paramout" where
  "deleteLineNum (ParRec a t d l) = ParRec a t d None"
| "deleteLineNum ParFalse = ParFalse"
| "deleteLineNum ParTypeNull = ParTypeNull"

definition getParams :: "paths \<Rightarrow> metadata \<Rightarrow> error + paramout field" where
  "getParams paths metadata =
     (case mt_params metadata of
        None \<Rightarrow> Inr FFalse
      | Some ps \<Rightarrow>
          thenE (mapE (paramEntry paths) ps) (\<lambda>outParams.
            Inr (FArr (map deleteLineNum
                        (arraySort compareLineNum (filter typeNotNull outParams))))))"

text \<open>A row of the options table.\<close>

record optout =
  Prop :: string
  OType :: jsv
  Default :: jsv
  ODescription :: jsv

definition backslash :: char where
  "backslash = CHR 0x5C"

definition optionEntry :: "paths \<Rightarrow> property \<Rightarrow> error + optout" where
  "optionEntry paths prop =
     (let defaultVal =
            (case pr_default prop of
               None \<Rightarrow> JNull
             | Some d \<Rightarrow> if d = [] then JNull else JStr (replace_first [backslash] [] d))
      in thenE (getType paths (pr_type prop) False) (\<lambda>t.
         thenE (firstBlock (pr_description prop)) (\<lambda>inNode.
         thenE (concatTags paths inNode False) (\<lambda>d.
           Inr \<lparr>Prop = replace_first ''options.'' [] (pr_name prop), OType = t,
                Default = defaultVal, ODescription = d\<rparr>))))"

definition getOptions :: "paths \<Rightarrow> metadata \<Rightarrow> error + optout field" where
  "getOptions paths metadata =
     (case mt_params metadata of
        None \<Rightarrow> Inr FFalse
      | Some ps \<Rightarrow>
          (case filter (\<lambda>p. pa_name p = ''options'') ps of
             [] \<Rightarrow> Inr FNull
           | opt # _ \<Rightarrow>
               (case pa_properties opt of
                  None \<Rightarrow> Inl TypeError
                | Some props \<Rightarrow>
                    thenE (mapE (optionEntry paths) props) (\<lambda>outProperties.
                      Inr (FArr outProperties)))))"

section \<open>The module tree\<close>

text \<open>An item of the manifest's \<^verbatim>\<open>toc\<close>: a group marker (an object with a
  \<^verbatim>\<open>name\<close>) or the name of a module.\<close>

datatype tocItem = TocGroup string | TocName string

text \<open>\<^verbatim>\<open>tocItem.name\<close>: a string has no such property.\<close>

fun tocItemName :: "tocItem \<Rightarrow> string option" where
  "tocItemName (TocGroup n) = Some n"
| "tocItemName (TocName s) = None"

text \<open>What the normaliser assigns to a module entry, in the order of lines 50 to 59.\<close>

record info =
  i_parent :: "string option"
  i_description :: jsv
  i_snippet :: jsv
  i_example :: jsv
  i_hasMap :: bool
  i_npmName :: string
  i_returns :: "tagout field"
  i_params :: "paramout field"
  i_options :: "optout field"
  i_throws :: "tagout field"

text \<open>
  A module entry: \<^verbatim>\<open>{ name, hidden }\<close> as the manifest loader pushes it
  (\<^verbatim>\<open>name\<close> is the toc item), and the normalised fields once the entry has been
  filled.  An exception during the assignments ends the run without output, so an entry
  filled in part is never written.
\<close>

record moduleObj =
  mo_name :: tocItem
  mo_hidden :: bool
  mo_info :: "info option"

record tocGroup =
  g_group :: string
  g_modules :: "moduleObj list"

text \<open>The callback of \<^verbatim>\<open>docs.toc.forEach\<close> (lines 18 to 29), on the array
  \<^verbatim>\<open>modules\<close>.\<close>

definition tocStep :: "tocGroup list \<Rightarrow> tocItem \<Rightarrow> error + tocGroup list" where
  "tocStep modules tocItem =
     (case tocItemName tocItem of
        Some (c # cs) \<Rightarrow> Inr (modules @ [\<lparr>g_group = c # cs, g_modules = []\<rparr>])
      | _ \<Rightarrow>
          (if modules = [] then Inl TypeError
           else Inr (butlast modules @
                  [(last modules)\<lparr>g_modules := g_modules (last modules) @
                     [\<lparr>mo_name = tocItem, mo_hidden = False, mo_info = None\<rparr>]\<rparr>])))"

definition loadToc :: "tocItem list \<Rightarrow> error + tocGroup list" where
  "loadToc toc = forEachE tocStep toc []"

text \<open>\<^verbatim>\<open>getModuleObj\<close>: the position of the first entry with that name, group by
  group; \<open>None\<close> when the loops end without a return.\<close>

fun findModule :: "moduleObj list \<Rightarrow> string \<Rightarrow> nat option" where
  "findModule [] moduleName = None"
| "findModule (m # ms) moduleName =
     (if mo_name m = TocName moduleName then Some 0
      else map_option Suc (findModule ms moduleName))"

fun getModuleObj :: "tocGroup list \<Rightarrow> string \<Rightarrow> (nat \<times> nat) option" where
  "getModuleObj [] moduleName = None"
| "getModuleObj (g # gs) moduleName =
     (case findModule (g_modules g) moduleName of
        Some i2 \<Rightarrow> Some (0, i2)
      | None \<Rightarrow> map_option (\<lambda>(i, i2). (Suc i, i2)) (getModuleObj gs moduleName))"

text \<open>The ten assignments of lines 50 to 59.\<close>

definition normalize :: "paths \<Rightarrow> string \<Rightarrow> string option \<Rightarrow> metadata \<Rightarrow> error + info" where
  "normalize paths npm parent metadata =
     thenE (getDescription paths metadata) (\<lambda>d.
     thenE (getReturns paths metadata) (\<lambda>r.
     thenE (getParams paths metadata) (\<lambda>p.
     thenE (getOptions paths metadata) (\<lambda>opts.
     thenE (getThrows paths metadata) (\<lambda>t.
       Inr \<lparr>i_parent = parent, i_description = d, i_snippet = getSnippet metadata,
            i_example = getExample metadata, i_hasMap = hasMap metadata, i_npmName = npm,
            i_returns = r, i_params = p, i_options = opts, i_throws = t\<rparr>)))))"

text \<open>Writing through the reference \<^verbatim>\<open>getModuleObj\<close> returned.\<close>

definition setInfo :: "tocGroup list \<Rightarrow> nat \<times> nat \<Rightarrow> info \<Rightarrow> tocGroup list" where
  "setInfo modules pos v =
     (case pos of (i, i2) \<Rightarrow>
        modules[i := (modules ! i)\<lparr>g_modules :=
          (g_modules (modules ! i))[i2 := (g_modules (modules ! i) ! i2)\<lparr>mo_info := Some v\<rparr>]\<rparr>])"

text \<open>The callback of \<^verbatim>\<open>docs.forEach\<close> (lines 47 to 61).\<close>

definition docStep ::
  "paths \<Rightarrow> string \<Rightarrow> string option \<Rightarrow> tocGroup list \<Rightarrow> metadata \<Rightarrow> error + tocGroup list" where
  "docStep paths npm parent modules metadata =
     (case getModuleObj modules (mt_name metadata) of
        None \<Rightarrow> Inr modules
      | Some pos \<Rightarrow>
          thenE (normalize paths npm parent metadata) (\<lambda>v. Inr (setInfo modules pos v)))"

section \<open>The queue and the writer\<close>

text \<open>
  What the extractor gives for a package: its promise rejects, or resolves with
  \<^verbatim>\<open>undefined\<close> (\<open>None\<close>), or with the documentation of the package's symbols.
\<close>

datatype extraction = Rejected | Resolved "metadata list option"

record package =
  pckg_name :: string
  pckg_docs :: extraction

text \<open>
  A task of the queue (lines 36 to 65).  It calls its \<^verbatim>\<open>callback\<close> only at
  line 62: \<open>Some\<close> is the tree at that call, \<open>None\<close> a task that never calls back (a
  rejection, line 41, where \<^verbatim>\<open>console.warning\<close> is not a function, or an exception
  in the normaliser).
\<close>

definition task :: "paths \<Rightarrow> package \<Rightarrow> tocGroup list \<Rightarrow> tocGroup list option" where
  "task paths pckg modules =
     (case pckg_docs pckg of
        Rejected \<Rightarrow> None
      | Resolved None \<Rightarrow> None
      | Resolved (Some docs) \<Rightarrow>
          (let parent = (if length docs > 1 then Some (pckg_name pckg) else None)
           in case forEachE (docStep paths (pckg_name pckg) parent) docs modules of
                Inl e \<Rightarrow> None
              | Inr modules' \<Rightarrow> Some modules'))"

text \<open>
  The outcome of a run: the packages whose task started (each prints
  \<^verbatim>\<open>Parsing Docs:\<close> with its name), and the configuration written, if any.
\<close>

record outcome =
  parsed :: "string list"
  written :: "tocGroup list option"

text \<open>
  \<^verbatim>\<open>d3.queue(1)\<close>: the tasks run one at a time in the order they were deferred, the
  next one starts when the running one calls back, and the \<^verbatim>\<open>awaitAll\<close> callback,
  which writes the file, runs once every task has called back.
\<close>

fun queue :: "paths \<Rightarrow> package list \<Rightarrow> tocGroup list \<Rightarrow> string list \<Rightarrow> outcome" where
  "queue paths [] modules log = \<lparr>parsed = log, written = Some modules\<rparr>"
| "queue paths (pckg # rest) modules log =
     (case task paths pckg modules of
        None \<Rightarrow> \<lparr>parsed = log @ [pckg_name pckg], written = None\<rparr>
      | Some modules' \<Rightarrow> queue paths rest modules' (log @ [pckg_name pckg]))"

record manifest =
  mf_toc :: "tocItem list"
  mf_paths :: "(string \<times> string) list"

text \<open>The script: an exception while the toc is read ends it before any task is
  deferred.\<close>

definition createConfig :: "manifest \<Rightarrow> package list \<Rightarrow> outcome" where
  "createConfig docs packages =
     (case loadToc (mf_toc docs) of
        Inl e \<Rightarrow> \<lparr>parsed = [], written = None\<rparr>
      | Inr modules \<Rightarrow> queue (upperPaths (mf_paths docs)) packages modules [])"

section \<open>Notions used in the statements and proofs\<close>


text \<open>The toc a module tree stands for: every group marker, followed by the names of
  its modules.\<close>

definition tocOf :: "tocGroup list \<Rightarrow> tocItem list" where
  "tocOf modules = concat (map (\<lambda>g. TocGroup (g_group g) # map mo_name (g_modules g)) modules)"

text \<open>
  The groups of a toc as the manifest loader's contract words them: a group marker
  (an item with a name that is not empty) starts a group, and the items up to the next
  marker are the names of its modules, in order.  The first component holds the items
  that stand before the first marker.
\<close>

fun specGroups :: "tocItem list \<Rightarrow> tocItem list \<times> (string \<times> tocItem list) list" where
  "specGroups [] = ([], [])"
| "specGroups (item # rest) =
     (case specGroups rest of
        (lead, groups) \<Rightarrow>
          (case item of
             TocGroup n \<Rightarrow> if n \<noteq> [] then ([], (n, lead) # groups) else (item # lead, groups)
           | TocName s \<Rightarrow> (item # lead, groups)))"

text \<open>The groups of a module tree: the name of every group with the names of its
  modules.\<close>

definition groupsOf :: "tocGroup list \<Rightarrow> (string \<times> tocItem list) list" where
  "groupsOf modules = map (\<lambda>g. (g_group g, map mo_name (g_modules g))) modules"

text \<open>A group marker, and a tree whose groups have names and whose modules are not
  named by a marker.\<close>

fun isMarker :: "tocItem \<Rightarrow> bool" where
  "isMarker (TocGroup n) = (n \<noteq> [])"
| "isMarker (TocName s) = False"

definition wellGrouped :: "tocGroup list \<Rightarrow> bool" where
  "wellGrouped gs =
     (\<forall>g\<in>set gs. g_group g \<noteq> [] \<and> (\<forall>m\<in>set (g_modules g). \<not> isMarker (mo_name m)))"

text \<open>The symbol names the packages of a list document.\<close>

definition documented :: "package list \<Rightarrow> string set" where
  "documented pkgs =
     {mt_name md | md p ds. p \<in> set pkgs \<and> pckg_docs p = Resolved (Some ds) \<and> md \<in> set ds}"

text \<open>Every entry is visible, and an entry is unfilled unless its name is among \<open>N\<close>.\<close>

definition untouched :: "string set \<Rightarrow> tocGroup list \<Rightarrow> bool" where
  "untouched N gs =
     (\<forall>g\<in>set gs. \<forall>m\<in>set (g_modules g).
        mo_hidden m = False \<and> (mo_name m \<notin> TocName ` N \<longrightarrow> mo_info m = None))"

text \<open>The comparator of \<^verbatim>\<open>getParams\<close> on the parameters themselves.\<close>

definition compareParam :: "param \<Rightarrow> param \<Rightarrow> int option" where
  "compareParam a b = Some (pa_lineNumber a - pa_lineNumber b)"

section \<open>Sample inputs\<close>

text \<open>A text node, and a node that only has children (a paragraph, or the root of a
  description).\<close>

definition textNode :: "string \<Rightarrow> mdnode" where
  "textNode s = MdNode None (Some s) None False"

definition blockNode :: "mdnode list \<Rightarrow> mdnode" where
  "blockNode ns = MdNode (Some ns) None None False"

text \<open>A symbol documented with a one-paragraph description and one example.\<close>

definition sampleMeta :: metadata where
  "sampleMeta =
     \<lparr>mt_name = ''along'',
      mt_description = blockNode [blockNode [textNode ''Optional parameters'']],
      mt_examples =
        [\<lparr>ex_description = ''foo'' @ [CHR 0x0A] @ ''//addToMap'' @ [CHR 0x0A] @ ''bar''\<rparr>],
      mt_returns = None, mt_throws = None, mt_params = None\<rparr>"


text \<open>The sample symbol with two documented return values, the second without
  descriptive text.\<close>

definition returnsMeta :: metadata where
  "returnsMeta = sampleMeta\<lparr>mt_returns :=
     Some [\<lparr>tg_type = Some (NameExpression ''Number''),
             tg_description = blockNode [blockNode [textNode ''the'', textNode ''distance'']]\<rparr>,
           \<lparr>tg_type = Some (NameExpression ''Feature''), tg_description = blockNode []\<rparr>]\<rparr>"

text \<open>The sample symbol with arrays of return values and of exceptions that hold
  nothing, and with a return value of the type \<^verbatim>\<open>Array<*>\<close>, whose argument has no
  name.\<close>

definition emptyReturnsMeta :: metadata where
  "emptyReturnsMeta = sampleMeta\<lparr>mt_returns := Some [], mt_throws := Some []\<rparr>"

definition starReturnsMeta :: metadata where
  "starReturnsMeta = sampleMeta\<lparr>mt_returns :=
     Some [\<lparr>tg_type = Some (TypeApplication (NameExpression ''Array'') [OtherType None]),
             tg_description = blockNode [blockNode [textNode ''the'', textNode ''values'']]\<rparr>]\<rparr>"

text \<open>A symbol with an \<^verbatim>\<open>options\<close> parameter that documents one property,
  \<^verbatim>\<open>options.units\<close>, whose default is the text \<^verbatim>\<open>'kilometers'\<close>, quotes included.\<close>

definition quoted :: "string \<Rightarrow> string" where
  "quoted s = CHR 0x27 # s @ [CHR 0x27]"

definition unitsProperty :: property where
  "unitsProperty =
     \<lparr>pr_name = ''options.units'', pr_type = Some (NameExpression ''string''),
      pr_default = Some (quoted ''kilometers''),
      pr_description = blockNode [blockNode [textNode ''units'']]\<rparr>"

definition optionsParam :: param where
  "optionsParam =
     \<lparr>pa_name = ''options'', pa_type = Some (NameExpression ''Object''),
      pa_description = blockNode [blockNode [textNode ''Optional parameters'']],
      pa_lineNumber = 7, pa_properties = Some [unitsProperty]\<rparr>"

definition optionsMeta :: metadata where
  "optionsMeta = sampleMeta\<lparr>mt_params := Some [optionsParam]\<rparr>"

text \<open>A manifest whose \<^verbatim>\<open>paths\<close> know \<^verbatim>\<open>Feature\<close> only.\<close>

definition samplePaths :: "(string \<times> string) list" where
  "samplePaths = [(''Feature'', ''http://geojson.org/geojson-spec.html#feature-objects'')]"

text \<open>A manifest with two groups, two packages that document symbols of it (and one
  symbol, \<^verbatim>\<open>point\<close>, that is not in the toc), and a run whose second package is
  rejected by the extractor.\<close>

definition sampleManifest :: manifest where
  "sampleManifest =
     \<lparr>mf_toc = [TocGroup ''Measurement'', TocName ''along'', TocName ''area'',
                TocGroup ''Helper'', TocName ''feature''],
      mf_paths = samplePaths\<rparr>"

definition samplePackages :: "package list" where
  "samplePackages =
     [\<lparr>pckg_name = ''@turf/along'', pckg_docs = Resolved (Some [sampleMeta])\<rparr>,
      \<lparr>pckg_name = ''@turf/helpers'',
       pckg_docs = Resolved (Some [sampleMeta\<lparr>mt_name := ''point''\<rparr>,
                                   sampleMeta\<lparr>mt_name := ''feature''\<rparr>])\<rparr>]"

definition rejectingPackages :: "package list" where
  "rejectingPackages =
     [\<lparr>pckg_name = ''@turf/along'', pckg_docs = Resolved (Some [sampleMeta])\<rparr>,
      \<lparr>pckg_name = ''@turf/area'', pckg_docs = Rejected\<rparr>,
      \<lparr>pckg_name = ''@turf/helpers'',
       pckg_docs = Resolved (Some [sampleMeta\<lparr>mt_name := ''feature''\<rparr>])\<rparr>]"

text \<open>The sample symbol documented without any description text, and the sample
  \<^verbatim>\<open>options\<close> parameter without documented properties.\<close>

definition undescribedMeta :: metadata where
  "undescribedMeta = sampleMeta\<lparr>mt_description := blockNode []\<rparr>"

definition bareOptionsMeta :: metadata where
  "bareOptionsMeta = sampleMeta\<lparr>mt_params := Some [optionsParam\<lparr>pa_properties := None\<rparr>]\<rparr>"

text \<open>
  A symbol \<^verbatim>\<open>f(a, b, c)\<close> whose comment documents \<^verbatim>\<open>c\<close> on line 3, \<^verbatim>\<open>b\<close> on
  line 4 (with a type and no text) and \<^verbatim>\<open>a\<close> on line 5.
\<close>

definition lineParam :: "string \<Rightarrow> int \<Rightarrow> mdnode list \<Rightarrow> param" where
  "lineParam n l blocks =
     \<lparr>pa_name = n, pa_type = Some (NameExpression ''Number''),
      pa_description = blockNode blocks, pa_lineNumber = l, pa_properties = None\<rparr>"

definition unsortedMeta :: metadata where
  "unsortedMeta = sampleMeta\<lparr>mt_params :=
     Some [lineParam ''a'' 5 [blockNode [textNode ''first'']],
           lineParam ''b'' 4 [],
           lineParam ''c'' 3 [blockNode [textNode ''third'']]]\<rparr>"

section \<open>Facts about the string primitives\<close>

lemma startsWith_iff: "startsWith pat s \<longleftrightarrow> (\<exists>r. s = pat @ r)"
  by (induction pat s rule: startsWith.induct) auto

lemma includes_iff: "str_includes pat s \<longleftrightarrow> (\<exists>a b. s = a @ pat @ b)"
proof (induction s)
  case Nil
  then show ?case by auto
next
  case (Cons c cs)
  show ?case
  proof
    assume "str_includes pat (c # cs)"
    then consider "startsWith pat (c # cs)" | "str_includes pat cs" by auto
    then show "\<exists>a b. c # cs = a @ pat @ b"
    proof cases
      case 1
      then obtain r where "c # cs = pat @ r" by (auto simp: startsWith_iff)
      then have "c # cs = [] @ pat @ r" by simp
      then show ?thesis by blast
    next
      case 2
      then obtain a b where "cs = a @ pat @ b" using Cons.IH by blast
      then have "c # cs = (c # a) @ pat @ b" by simp
      then show ?thesis by blast
    qed
  next
    assume "\<exists>a b. c # cs = a @ pat @ b"
    then obtain a b where ab: "c # cs = a @ pat @ b" by blast
    show "str_includes pat (c # cs)"
    proof (cases a)
      case Nil
      with ab have "startsWith pat (c # cs)" by (auto simp: startsWith_iff)
      then show ?thesis by simp
    next
      case (Cons x a')
      with ab have "cs = a' @ pat @ b" by simp
      then have "str_includes pat cs" using Cons.IH by blast
      then show ?thesis by simp
    qed
  qed
qed

lemma split_head_none: "\<not> str_includes sep s \<Longrightarrow> split_head sep s = s"
  by (induction s) auto

lemma split_head_first:
  "sep \<noteq> [] \<Longrightarrow> (\<forall>i<length a. \<not> startsWith sep (drop i (a @ sep @ b)))
     \<Longrightarrow> split_head sep (a @ sep @ b) = a"
proof (induction a)
  case Nil
  then obtain p ps where "sep = p # ps" by (cases sep) auto
  then show ?case by (simp add: startsWith_iff)
next
  case (Cons x a)
  from Cons.prems(2) have "\<not> startsWith sep (drop 0 ((x # a) @ sep @ b))" by blast
  then have h0: "\<not> startsWith sep (x # a @ sep @ b)" by simp
  have "\<forall>i<length a. \<not> startsWith sep (drop i (a @ sep @ b))"
  proof (intro allI impI)
    fix i assume "i < length a"
    then have "Suc i < length (x # a)" by simp
    with Cons.prems(2) have "\<not> startsWith sep (drop (Suc i) ((x # a) @ sep @ b))" by blast
    then show "\<not> startsWith sep (drop i (a @ sep @ b))" by simp
  qed
  with Cons.IH Cons.prems(1) have "split_head sep (a @ sep @ b) = a" by blast
  with h0 show ?case by simp
qed

lemma thenE_Inr [simp]: "thenE (Inr x) f = f x"
  by (simp add: thenE_def)

lemma thenE_Inl [simp]: "thenE (Inl e) f = Inl e"
  by (simp add: thenE_def)

lemma thenE_eq_Inr: "thenE r f = Inr y \<longleftrightarrow> (\<exists>x. r = Inr x \<and> f x = Inr y)"
  by (cases r) auto

lemma replace_first_none: "\<not> str_includes pat s \<Longrightarrow> replace_first pat new s = s"
  by (induction s) auto

lemma replace_first_first:
  "pat \<noteq> [] \<Longrightarrow> (\<forall>i<length a. \<not> startsWith pat (drop i (a @ pat @ b)))
     \<Longrightarrow> replace_first pat new (a @ pat @ b) = a @ new @ b"
proof (induction a)
  case Nil
  then obtain p ps where p: "pat = p # ps" by (cases pat) auto
  have "startsWith pat (pat @ b)" by (simp add: startsWith_iff)
  with p show ?case by simp
next
  case (Cons x a)
  from Cons.prems(2) have "\<not> startsWith pat (drop 0 ((x # a) @ pat @ b))" by blast
  then have h0: "\<not> startsWith pat (x # a @ pat @ b)" by simp
  have "\<forall>i<length a. \<not> startsWith pat (drop i (a @ pat @ b))"
  proof (intro allI impI)
    fix i assume "i < length a"
    then have "Suc i < length (x # a)" by simp
    with Cons.prems(2) have "\<not> startsWith pat (drop (Suc i) ((x # a) @ pat @ b))" by blast
    then show "\<not> startsWith pat (drop i (a @ pat @ b))" by simp
  qed
  with Cons.IH Cons.prems(1) have "replace_first pat new (a @ pat @ b) = a @ new @ b" by blast
  with h0 show ?case by simp
qed

section \<open>Facts about the description renderer\<close>







section \<open>Facts about returns and throws\<close>

lemma mapE_eq_Inr: "mapE f xs = Inr ys \<longleftrightarrow> list_all2 (\<lambda>x y. f x = Inr y) xs ys"
proof (induction xs arbitrary: ys)
  case Nil
  then show ?case by auto
next
  case (Cons x xs)
  show ?case
  proof (cases "f x")
    case (Inl e)
    then show ?thesis by (auto simp: list_all2_Cons1)
  next
    case (Inr y)
    then show ?thesis using Cons.IH by (cases "mapE f xs") (auto simp: list_all2_Cons1)
  qed
qed

lemma mapE_total:
  assumes "\<forall>x\<in>set xs. \<exists>y. f x = Inr y"
  shows "\<exists>ys. mapE f xs = Inr ys"
  using assms
proof (induction xs)
  case Nil
  then show ?case by simp
next
  case (Cons x xs)
  then obtain y ys where "f x = Inr y" "mapE f xs = Inr ys" by auto
  then show ?case by simp
qed

lemma tagEntry_empty:
  "md_children (tg_description r) = Some [] \<Longrightarrow> tagEntry L r = Inr TagFalse"
  by (simp add: tagEntry_def noChildren_def)

lemma tagEntry_block:
  "md_children (tg_description r) = Some (b # bs) \<Longrightarrow> getType L (tg_type r) False = Inr t \<Longrightarrow>
   concatTags L (md_children b) False = Inr d \<Longrightarrow> tagEntry L r = Inr (TagRec t d)"
  by (simp add: tagEntry_def noChildren_def firstBlock_def)

lemma tag_array:
  assumes ok: "\<forall>r\<in>set rs. (\<exists>cs. md_children (tg_description r) = Some cs) \<and>
           (\<forall>b bs. md_children (tg_description r) = Some (b # bs) \<longrightarrow>
              (\<exists>t. getType L (tg_type r) False = Inr t) \<and>
              (\<exists>d. concatTags L (md_children b) False = Inr d))"
  shows "\<exists>out. mapE (tagEntry L) rs = Inr out \<and> length out = length rs \<and>
           (\<forall>i<length rs.
              (md_children (tg_description (rs ! i)) = Some [] \<longrightarrow> out ! i = TagFalse) \<and>
              (\<forall>b bs. md_children (tg_description (rs ! i)) = Some (b # bs) \<longrightarrow>
                 (\<exists>t d. out ! i = TagRec t d \<and> getType L (tg_type (rs ! i)) False = Inr t \<and>
                        concatTags L (md_children b) False = Inr d)))"
proof -
  have "\<forall>r\<in>set rs. \<exists>y. tagEntry L r = Inr y"
  proof
    fix r assume "r \<in> set rs"
    with ok obtain cs where cs: "md_children (tg_description r) = Some cs"
      and blk: "\<forall>b bs. md_children (tg_description r) = Some (b # bs) \<longrightarrow>
              (\<exists>t. getType L (tg_type r) False = Inr t) \<and>
              (\<exists>d. concatTags L (md_children b) False = Inr d)" by blast
    show "\<exists>y. tagEntry L r = Inr y"
    proof (cases cs)
      case Nil
      with cs show ?thesis by (simp add: tagEntry_empty)
    next
      case (Cons b bs)
      with cs blk obtain t d where "getType L (tg_type r) False = Inr t"
        "concatTags L (md_children b) False = Inr d" by blast
      with cs Cons show ?thesis by (simp add: tagEntry_block)
    qed
  qed
  then obtain out where out: "mapE (tagEntry L) rs = Inr out" using mapE_total by blast
  then have all2: "list_all2 (\<lambda>x y. tagEntry L x = Inr y) rs out" by (simp add: mapE_eq_Inr)
  then have len: "length out = length rs" by (simp add: list_all2_lengthD)
  have "(md_children (tg_description (rs ! i)) = Some [] \<longrightarrow> out ! i = TagFalse) \<and>
        (\<forall>b bs. md_children (tg_description (rs ! i)) = Some (b # bs) \<longrightarrow>
           (\<exists>t d. out ! i = TagRec t d \<and> getType L (tg_type (rs ! i)) False = Inr t \<and>
                  concatTags L (md_children b) False = Inr d))" if i: "i < length rs" for i
  proof -
    from all2 i have e: "tagEntry L (rs ! i) = Inr (out ! i)" by (rule list_all2_nthD)
    from i have mem: "rs ! i \<in> set rs" by simp
    show ?thesis
    proof (intro conjI impI allI)
      assume "md_children (tg_description (rs ! i)) = Some []"
      then have "tagEntry L (rs ! i) = Inr TagFalse" by (rule tagEntry_empty)
      with e show "out ! i = TagFalse" by simp
    next
      fix b bs assume c: "md_children (tg_description (rs ! i)) = Some (b # bs)"
      with ok mem obtain t d where t: "getType L (tg_type (rs ! i)) False = Inr t"
        and d: "concatTags L (md_children b) False = Inr d" by blast
      from c t d have "tagEntry L (rs ! i) = Inr (TagRec t d)" by (rule tagEntry_block)
      with e have "out ! i = TagRec t d" by simp
      with t d show "\<exists>t d. out ! i = TagRec t d \<and> getType L (tg_type (rs ! i)) False = Inr t \<and>
                  concatTags L (md_children b) False = Inr d" by blast
    qed
  qed
  with out len show ?thesis by blast
qed

text \<open>A type argument without a name reaches \<^verbatim>\<open>createLink\<close> with an undefined
  name, which has no \<^verbatim>\<open>toUpperCase\<close>.\<close>

lemma returns_unnamed_argument_raises: "getReturns L starReturnsMeta = Inl TypeError"
  by (simp add: starReturnsMeta_def getReturns_def tagEntry_def noChildren_def blockNode_def)

lemma list_two: "length xs = 2 \<Longrightarrow> xs = [xs ! 0, xs ! 1]"
  by (cases xs; cases "tl xs") auto

section \<open>Facts about the options table\<close>

lemma replace_first_char: "c \<notin> set a \<Longrightarrow> replace_first [c] new (a @ c # b) = a @ new @ b"
  by (induction a) auto

lemma replace_first_char_none: "c \<notin> set d \<Longrightarrow> replace_first [c] new d = d"
  by (induction d) auto

lemma replace_first_prefix: "pat \<noteq> [] \<Longrightarrow> replace_first pat new (pat @ r) = new @ r"
proof -
  assume "pat \<noteq> []"
  then obtain p ps where p: "pat = p # ps" by (cases pat) auto
  have "startsWith pat (pat @ r)" by (simp add: startsWith_iff)
  with p show ?thesis by simp
qed

lemma filter_first:
  "\<forall>p\<in>set pre. \<not> P p \<Longrightarrow> P x \<Longrightarrow> filter P (pre @ x # post) = x # filter P post"
  by (induction pre) auto

lemma optionEntry_row:
  assumes blk: "md_children (pr_description pr) = Some (blk # bs)"
    and t: "getType L (pr_type pr) False = Inr t"
    and d: "concatTags L (md_children blk) False = Inr d"
  shows "optionEntry L pr =
           Inr \<lparr>Prop = replace_first ''options.'' [] (pr_name pr), OType = t,
                Default = (case pr_default pr of
                             None \<Rightarrow> JNull
                           | Some v \<Rightarrow> if v = [] then JNull else JStr (replace_first [backslash] [] v)),
                ODescription = d\<rparr>"
  using assms by (simp add: optionEntry_def firstBlock_def)

lemma options_rows:
  assumes ps: "mt_params md = Some (pre @ opt # post)"
    and pre: "\<forall>p\<in>set pre. pa_name p \<noteq> ''options''"
    and opt: "pa_name opt = ''options''"
    and props: "pa_properties opt = Some props"
    and ok: "\<forall>pr\<in>set props. \<exists>blk bs t d. md_children (pr_description pr) = Some (blk # bs) \<and>
           getType L (pr_type pr) False = Inr t \<and> concatTags L (md_children blk) False = Inr d"
  shows "\<exists>out. getOptions L md = Inr (FArr out) \<and> length out = length props \<and>
         (\<forall>i<length props.
            (\<forall>r. pr_name (props ! i) = ''options.'' @ r \<longrightarrow> Prop (out ! i) = r) \<and>
            ((\<nexists>a b. pr_name (props ! i) = a @ ''options.'' @ b) \<longrightarrow>
               Prop (out ! i) = pr_name (props ! i)) \<and>
            (\<forall>a b. pr_name (props ! i) = a @ ''options.'' @ b \<and>
                   (\<forall>j<length a. \<nexists>r. drop j (pr_name (props ! i)) = ''options.'' @ r) \<longrightarrow>
               Prop (out ! i) = a @ b) \<and>
            (pr_default (props ! i) = None \<or> pr_default (props ! i) = Some [] \<longrightarrow>
               Default (out ! i) = JNull) \<and>
            (\<forall>v. pr_default (props ! i) = Some v \<and> v \<noteq> [] \<and> CHR 0x5C \<notin> set v \<longrightarrow>
               Default (out ! i) = JStr v) \<and>
            (\<forall>a b. pr_default (props ! i) = Some (a @ CHR 0x5C # b) \<and> CHR 0x5C \<notin> set a \<longrightarrow>
               Default (out ! i) = JStr (a @ b)) \<and>
            getType L (pr_type (props ! i)) False = Inr (OType (out ! i)) \<and>
            (\<exists>blk bs. md_children (pr_description (props ! i)) = Some (blk # bs) \<and>
               concatTags L (md_children blk) False = Inr (ODescription (out ! i))))"
proof -
  from pre opt have f: "filter (\<lambda>p. pa_name p = ''options'') (pre @ opt # post) =
      opt # filter (\<lambda>p. pa_name p = ''options'') post" by (intro filter_first) simp_all
  have "\<forall>pr\<in>set props. \<exists>y. optionEntry L pr = Inr y"
  proof
    fix pr assume "pr \<in> set props"
    with ok obtain blk bs t d where "md_children (pr_description pr) = Some (blk # bs)"
      "getType L (pr_type pr) False = Inr t" "concatTags L (md_children blk) False = Inr d"
      by blast
    then show "\<exists>y. optionEntry L pr = Inr y" by (simp add: optionEntry_row)
  qed
  then obtain out where out: "mapE (optionEntry L) props = Inr out" using mapE_total by blast
  then have all2: "list_all2 (\<lambda>x y. optionEntry L x = Inr y) props out" by (simp add: mapE_eq_Inr)
  then have len: "length out = length props" by (simp add: list_all2_lengthD)
  from ps f props out have res: "getOptions L md = Inr (FArr out)" by (simp add: getOptions_def)
  have rows: "\<forall>i<length props.
            (\<forall>r. pr_name (props ! i) = ''options.'' @ r \<longrightarrow> Prop (out ! i) = r) \<and>
            ((\<nexists>a b. pr_name (props ! i) = a @ ''options.'' @ b) \<longrightarrow>
               Prop (out ! i) = pr_name (props ! i)) \<and>
            (\<forall>a b. pr_name (props ! i) = a @ ''options.'' @ b \<and>
                   (\<forall>j<length a. \<nexists>r. drop j (pr_name (props ! i)) = ''options.'' @ r) \<longrightarrow>
               Prop (out ! i) = a @ b) \<and>
            (pr_default (props ! i) = None \<or> pr_default (props ! i) = Some [] \<longrightarrow>
               Default (out ! i) = JNull) \<and>
            (\<forall>v. pr_default (props ! i) = Some v \<and> v \<noteq> [] \<and> CHR 0x5C \<notin> set v \<longrightarrow>
               Default (out ! i) = JStr v) \<and>
            (\<forall>a b. pr_default (props ! i) = Some (a @ CHR 0x5C # b) \<and> CHR 0x5C \<notin> set a \<longrightarrow>
               Default (out ! i) = JStr (a @ b)) \<and>
            getType L (pr_type (props ! i)) False = Inr (OType (out ! i)) \<and>
            (\<exists>blk bs. md_children (pr_description (props ! i)) = Some (blk # bs) \<and>
               concatTags L (md_children blk) False = Inr (ODescription (out ! i)))"
  proof (intro allI impI)
    fix i assume i: "i < length props"
    let ?pr = "props ! i"
    from all2 i have e: "optionEntry L ?pr = Inr (out ! i)" by (rule list_all2_nthD)
    from i have "?pr \<in> set props" by simp
    with ok obtain blk bs t d where blk: "md_children (pr_description ?pr) = Some (blk # bs)"
      and t: "getType L (pr_type ?pr) False = Inr t"
      and d: "concatTags L (md_children blk) False = Inr d"
      by blast
    from optionEntry_row [OF blk t d] e
    have o: "out ! i = \<lparr>Prop = replace_first ''options.'' [] (pr_name ?pr), OType = t,
                Default = (case pr_default ?pr of
                             None \<Rightarrow> JNull
                           | Some v \<Rightarrow> if v = [] then JNull else JStr (replace_first [backslash] [] v)),
                ODescription = d\<rparr>" by simp
    have p1: "\<forall>r. pr_name ?pr = ''options.'' @ r \<longrightarrow> Prop (out ! i) = r"
    proof (intro allI impI)
      fix r assume "pr_name ?pr = ''options.'' @ r"
      moreover have "replace_first ''options.'' [] (''options.'' @ r) = [] @ r"
        by (rule replace_first_prefix) simp
      ultimately show "Prop (out ! i) = r" using o by simp
    qed
    have p2: "(\<nexists>a b. pr_name ?pr = a @ ''options.'' @ b) \<longrightarrow> Prop (out ! i) = pr_name ?pr"
    proof
      assume "\<nexists>a b. pr_name ?pr = a @ ''options.'' @ b"
      then have "\<not> str_includes ''options.'' (pr_name ?pr)" by (simp add: includes_iff)
      then have "replace_first ''options.'' [] (pr_name ?pr) = pr_name ?pr"
        by (rule replace_first_none)
      with o show "Prop (out ! i) = pr_name ?pr" by simp
    qed
    have p3: "\<forall>a b. pr_name ?pr = a @ ''options.'' @ b \<and>
                   (\<forall>j<length a. \<nexists>r. drop j (pr_name ?pr) = ''options.'' @ r) \<longrightarrow>
               Prop (out ! i) = a @ b"
    proof (intro allI impI)
      fix a b
      assume h: "pr_name ?pr = a @ ''options.'' @ b \<and>
                   (\<forall>j<length a. \<nexists>r. drop j (pr_name ?pr) = ''options.'' @ r)"
      from h have eq: "pr_name ?pr = a @ ''options.'' @ b" by (rule conjunct1)
      from h have "\<forall>j<length a. \<nexists>r. drop j (pr_name ?pr) = ''options.'' @ r" by (rule conjunct2)
      then have "\<forall>j<length a. \<not> startsWith ''options.'' (drop j (pr_name ?pr))"
        by (simp add: startsWith_iff)
      then have "\<forall>j<length a. \<not> startsWith ''options.'' (drop j (a @ ''options.'' @ b))"
        by (simp only: eq)
      then have "replace_first ''options.'' [] (a @ ''options.'' @ b) = a @ [] @ b"
        by (intro replace_first_first) simp_all
      with o eq show "Prop (out ! i) = a @ b" by simp
    qed
    have d1: "pr_default ?pr = None \<or> pr_default ?pr = Some [] \<longrightarrow> Default (out ! i) = JNull"
      using o by auto
    have d2: "\<forall>v. pr_default ?pr = Some v \<and> v \<noteq> [] \<and> CHR 0x5C \<notin> set v \<longrightarrow>
               Default (out ! i) = JStr v"
      using o by (auto simp: backslash_def replace_first_char_none)
    have d3: "\<forall>a b. pr_default ?pr = Some (a @ CHR 0x5C # b) \<and> CHR 0x5C \<notin> set a \<longrightarrow>
               Default (out ! i) = JStr (a @ b)"
    proof (intro allI impI)
      fix a b assume h: "pr_default ?pr = Some (a @ CHR 0x5C # b) \<and> CHR 0x5C \<notin> set a"
      then have "replace_first [CHR 0x5C] [] (a @ CHR 0x5C # b) = a @ [] @ b"
        by (intro replace_first_char) simp
      with h o show "Default (out ! i) = JStr (a @ b)" by (simp add: backslash_def)
    qed
    from o t have ty: "getType L (pr_type ?pr) False = Inr (OType (out ! i))" by simp
    from o blk d have de: "\<exists>blk bs. md_children (pr_description ?pr) = Some (blk # bs) \<and>
               concatTags L (md_children blk) False = Inr (ODescription (out ! i))" by simp
    from p1 p2 p3 d1 d2 d3 ty de show "(\<forall>r. pr_name (props ! i) = ''options.'' @ r \<longrightarrow> Prop (out ! i) = r) \<and>
            ((\<nexists>a b. pr_name (props ! i) = a @ ''options.'' @ b) \<longrightarrow>
               Prop (out ! i) = pr_name (props ! i)) \<and>
            (\<forall>a b. pr_name (props ! i) = a @ ''options.'' @ b \<and>
                   (\<forall>j<length a. \<nexists>r. drop j (pr_name (props ! i)) = ''options.'' @ r) \<longrightarrow>
               Prop (out ! i) = a @ b) \<and>
            (pr_default (props ! i) = None \<or> pr_default (props ! i) = Some [] \<longrightarrow>
               Default (out ! i) = JNull) \<and>
            (\<forall>v. pr_default (props ! i) = Some v \<and> v \<noteq> [] \<and> CHR 0x5C \<notin> set v \<longrightarrow>
               Default (out ! i) = JStr v) \<and>
            (\<forall>a b. pr_default (props ! i) = Some (a @ CHR 0x5C # b) \<and> CHR 0x5C \<notin> set a \<longrightarrow>
               Default (out ! i) = JStr (a @ b)) \<and>
            getType L (pr_type (props ! i)) False = Inr (OType (out ! i)) \<and>
            (\<exists>blk bs. md_children (pr_description (props ! i)) = Some (blk # bs) \<and>
               concatTags L (md_children blk) False = Inr (ODescription (out ! i)))"
      by (intro conjI)
  qed
  from res len rows show ?thesis by (intro exI [of _ out] conjI)
qed

section \<open>Facts about the paths and the type renderer\<close>

lemma upper_char_idem: "upper_char (upper_char c) = upper_char c"
proof (cases "97 \<le> (of_char c :: nat) \<and> (of_char c :: nat) \<le> 122")
  case True
  define n where "n = (of_char c :: nat)"
  with True have n: "97 \<le> n" "n \<le> 122" by simp_all
  then have "(n - 32) mod 256 = n - 32" by simp
  moreover from n have "\<not> 97 \<le> n - 32" by arith
  ultimately have "upper_char (char_of (n - 32)) = char_of (n - 32)"
    by (simp add: upper_char_def Let_def)
  moreover from n have "upper_char c = char_of (n - 32)"
    by (simp add: upper_char_def Let_def n_def)
  ultimately show ?thesis by simp
next
  case False
  then have "upper_char c = c" unfolding upper_char_def Let_def by (rule if_not_P)
  then show ?thesis by simp
qed

lemma toUpperCase_idem: "toUpperCase (toUpperCase s) = toUpperCase s"
  by (simp add: toUpperCase_def upper_char_idem)

lemma toUpperCase_Number: "toUpperCase ''Number'' = ''NUMBER''"
  by code_simp

lemma toUpperCase_Feature: "toUpperCase ''Feature'' = ''FEATURE''"
  by code_simp

lemma foldl_upperKey_other:
  "\<forall>k\<in>set ks. toUpperCase k \<noteq> U \<Longrightarrow> foldl upperKey m ks U = m U"
  by (induction ks arbitrary: m) (auto simp: upperKey_def)

lemma upperPaths_absent:
  assumes "\<forall>(k, v)\<in>set ps. toUpperCase k \<noteq> U" and "toUpperCase U = U"
  shows "upperPaths ps U = None"
proof -
  from assms(1) have ks: "\<forall>k\<in>set (map fst ps). toUpperCase k \<noteq> U" by auto
  have "U \<notin> fst ` set ps"
  proof
    assume "U \<in> fst ` set ps"
    then obtain v where "(U, v) \<in> set ps" by auto
    with assms show False by auto
  qed
  then have "map_of ps U = None" by (simp add: map_of_eq_None_iff)
  with foldl_upperKey_other [OF ks] show ?thesis by (simp add: upperPaths_def)
qed

lemma foldl_upperKey_present:
  assumes U: "toUpperCase U = U"
  shows "(\<forall>k. toUpperCase k = U \<and> k \<in> dom m \<longrightarrow> m k = Some url) \<Longrightarrow> set ks \<subseteq> dom m \<Longrightarrow>
         U \<in> dom m \<or> (\<exists>k\<in>set ks. toUpperCase k = U) \<Longrightarrow> foldl upperKey m ks U = Some url"
proof (induction ks arbitrary: m)
  case Nil
  with U show ?case by auto
next
  case (Cons k ks)
  let ?m = "upperKey m k"
  from Cons.prems(2) obtain v where v: "m k = Some v" by auto
  have inv: "\<forall>k'. toUpperCase k' = U \<and> k' \<in> dom ?m \<longrightarrow> ?m k' = Some url"
  proof (intro allI impI)
    fix k' assume h: "toUpperCase k' = U \<and> k' \<in> dom ?m"
    show "?m k' = Some url"
    proof (cases "k' = toUpperCase k")
      case True
      with h have "toUpperCase k = U" by (simp add: toUpperCase_idem)
      with Cons.prems(1) v have "m k = Some url" by auto
      with True show ?thesis by (simp add: upperKey_def)
    next
      case False
      with h v have "k' \<in> dom m" by (auto simp: upperKey_def)
      with h Cons.prems(1) have "m k' = Some url" by blast
      with False show ?thesis by (simp add: upperKey_def)
    qed
  qed
  have sub: "set ks \<subseteq> dom ?m" using Cons.prems(2) v by (auto simp: upperKey_def)
  have "U \<in> dom ?m \<or> (\<exists>k\<in>set ks. toUpperCase k = U)"
    using Cons.prems(3) v by (auto simp: upperKey_def)
  with Cons.IH [OF inv sub] show ?case by simp
qed

lemma upperPaths_present:
  assumes "(k, url) \<in> set ps" and "toUpperCase k = U"
    and "\<forall>(k', v)\<in>set ps. toUpperCase k' = U \<longrightarrow> v = url"
  shows "upperPaths ps U = Some url"
proof -
  from assms(2) have U: "toUpperCase U = U" using toUpperCase_idem by blast
  have inv: "\<forall>k'. toUpperCase k' = U \<and> k' \<in> dom (map_of ps) \<longrightarrow> map_of ps k' = Some url"
  proof (intro allI impI)
    fix k' assume h: "toUpperCase k' = U \<and> k' \<in> dom (map_of ps)"
    then obtain v where v: "map_of ps k' = Some v" by auto
    then have "(k', v) \<in> set ps" by (rule map_of_SomeD)
    with assms(3) h have "v = url" by auto
    with v show "map_of ps k' = Some url" by simp
  qed
  have sub: "set (map fst ps) \<subseteq> dom (map_of ps)" by (simp add: dom_map_of_conv_image_fst)
  from assms(1,2) have "\<exists>k\<in>set (map fst ps). toUpperCase k = U" by force
  then have "U \<in> dom (map_of ps) \<or> (\<exists>k\<in>set (map fst ps). toUpperCase k = U)" by simp
  from foldl_upperKey_present [OF U inv sub this] show ?thesis by (simp add: upperPaths_def)
qed

lemma union_number_feature:
  assumes "L ''NUMBER'' = None" and "L ''FEATURE'' = Some url" and "url \<noteq> []"
  shows "getType L (Some (UnionType [NameExpression ''Number'', NameExpression ''Feature''])) True =
           Inr (JStr (''(Number | '' @ anchor url ''Feature'' @ '')''))"
  using assms by (simp add: toUpperCase_Number toUpperCase_Feature)

section \<open>Facts about the module tree and the queue\<close>

lemma tocStep_tocOf: "tocStep gs item = Inr gs' \<Longrightarrow> tocOf gs' = tocOf gs @ [item]"
proof -
  assume step: "tocStep gs item = Inr gs'"
  show ?thesis
  proof (cases "\<exists>c cs. tocItemName item = Some (c # cs)")
    case True
    then obtain c cs where n: "tocItemName item = Some (c # cs)" by blast
    then have "item = TocGroup (c # cs)" by (cases item) auto
    with step n show ?thesis by (auto simp: tocStep_def tocOf_def)
  next
    case False
    then have other: "tocStep gs item =
        (if gs = [] then Inl TypeError
         else Inr (butlast gs @ [(last gs)\<lparr>g_modules := g_modules (last gs) @
                     [\<lparr>mo_name = item, mo_hidden = False, mo_info = None\<rparr>]\<rparr>]))"
      by (auto simp: tocStep_def split: option.splits list.splits)
    with step have ne: "gs \<noteq> []" by auto
    with step other have gs': "gs' = butlast gs @ [(last gs)\<lparr>g_modules := g_modules (last gs) @
                     [\<lparr>mo_name = item, mo_hidden = False, mo_info = None\<rparr>]\<rparr>]" by simp
    from ne have "tocOf gs = tocOf (butlast gs @ [last gs])" by simp
    then have "tocOf gs @ [item] = tocOf gs'" unfolding gs' by (simp add: tocOf_def)
    then show ?thesis by simp
  qed
qed

lemma forEach_tocStep_tocOf:
  "forEachE tocStep items gs = Inr gs' \<Longrightarrow> tocOf gs' = tocOf gs @ items"
proof (induction items arbitrary: gs)
  case Nil
  then show ?case by simp
next
  case (Cons item items)
  from Cons.prems obtain gs1 where s: "tocStep gs item = Inr gs1"
    and r: "forEachE tocStep items gs1 = Inr gs'" by (auto simp: thenE_eq_Inr)
  from Cons.IH [OF r] tocStep_tocOf [OF s] show ?case by simp
qed

lemma loadToc_tocOf: "loadToc items = Inr gs \<Longrightarrow> tocOf gs = items"
  using forEach_tocStep_tocOf [of items "[]" gs] by (simp add: loadToc_def tocOf_def)

lemma map_update_same:
  assumes "f y = f (xs ! i)"
  shows "map f (xs[i := y]) = map f xs"
proof (cases "i < length xs")
  case True
  with assms show ?thesis by (simp add: map_update list_update_same_conv)
next
  case False
  then have "length xs \<le> i" by (simp only: not_less)
  then have "xs[i := y] = xs" by (rule list_update_beyond)
  then show ?thesis by (simp only:)
qed

lemma setInfo_tocOf: "tocOf (setInfo gs pos v) = tocOf gs"
proof -
  obtain i i2 where pos: "pos = (i, i2)" by (cases pos)
  let ?f = "\<lambda>g. TocGroup (g_group g) # map mo_name (g_modules g)"
  let ?ms = "g_modules (gs ! i)"
  have "map mo_name (?ms[i2 := (?ms ! i2)\<lparr>mo_info := Some v\<rparr>]) = map mo_name ?ms"
    by (rule map_update_same) simp
  then have "?f ((gs ! i)\<lparr>g_modules := ?ms[i2 := (?ms ! i2)\<lparr>mo_info := Some v\<rparr>]\<rparr>) = ?f (gs ! i)"
    by simp
  then have "map ?f (gs[i := (gs ! i)\<lparr>g_modules := ?ms[i2 := (?ms ! i2)\<lparr>mo_info := Some v\<rparr>]\<rparr>]) = map ?f gs"
    by (rule map_update_same)
  with pos show ?thesis by (simp add: tocOf_def setInfo_def)
qed

lemma docStep_tocOf: "docStep L npm parent gs md = Inr gs' \<Longrightarrow> tocOf gs' = tocOf gs"
  by (auto simp: docStep_def thenE_eq_Inr setInfo_tocOf split: option.splits)

lemma forEach_docStep_tocOf:
  "forEachE (docStep L npm parent) docs gs = Inr gs' \<Longrightarrow> tocOf gs' = tocOf gs"
proof (induction docs arbitrary: gs)
  case Nil
  then show ?case by simp
next
  case (Cons md docs)
  from Cons.prems obtain gs1 where s: "docStep L npm parent gs md = Inr gs1"
    and r: "forEachE (docStep L npm parent) docs gs1 = Inr gs'" by (auto simp: thenE_eq_Inr)
  from Cons.IH [OF r] docStep_tocOf [OF s] show ?case by simp
qed

lemma task_tocOf: "task L pckg gs = Some gs' \<Longrightarrow> tocOf gs' = tocOf gs"
  by (auto simp: task_def Let_def forEach_docStep_tocOf
      split: extraction.splits option.splits sum.splits)

lemma queue_tocOf: "written (queue L pkgs gs log) = Some cfg \<Longrightarrow> tocOf cfg = tocOf gs"
proof (induction pkgs arbitrary: gs log)
  case Nil
  then show ?case by simp
next
  case (Cons p pkgs)
  show ?case
  proof (cases "task L p gs")
    case None
    with Cons.prems show ?thesis by simp
  next
    case (Some gs1)
    with Cons.prems have "written (queue L pkgs gs1 (log @ [pckg_name p])) = Some cfg" by simp
    then have "tocOf cfg = tocOf gs1" by (rule Cons.IH)
    with task_tocOf [OF Some] show ?thesis by simp
  qed
qed

lemma isMarker_iff: "isMarker item \<longleftrightarrow> (\<exists>c cs. tocItemName item = Some (c # cs))"
  by (cases item) (auto simp: neq_Nil_conv)

lemma tocStep_cases:
  assumes "tocStep gs item = Inr gs'"
  shows "(isMarker item \<and> (\<exists>n. item = TocGroup n \<and> gs' = gs @ [\<lparr>g_group = n, g_modules = []\<rparr>])) \<or>
         (\<not> isMarker item \<and> gs \<noteq> [] \<and>
          gs' = butlast gs @ [(last gs)\<lparr>g_modules := g_modules (last gs) @
                     [\<lparr>mo_name = item, mo_hidden = False, mo_info = None\<rparr>]\<rparr>])"
proof (cases "isMarker item")
  case True
  then obtain c cs where n: "tocItemName item = Some (c # cs)" by (auto simp: isMarker_iff)
  then have "item = TocGroup (c # cs)" by (cases item) auto
  with assms n True show ?thesis by (auto simp: tocStep_def)
next
  case False
  then have "\<nexists>c cs. tocItemName item = Some (c # cs)" by (simp add: isMarker_iff)
  then have other: "tocStep gs item =
      (if gs = [] then Inl TypeError
       else Inr (butlast gs @ [(last gs)\<lparr>g_modules := g_modules (last gs) @
                   [\<lparr>mo_name = item, mo_hidden = False, mo_info = None\<rparr>]\<rparr>]))"
    by (auto simp: tocStep_def split: option.splits list.splits)
  with assms have "gs \<noteq> []" by auto
  with assms other False show ?thesis by auto
qed

lemma tocStep_wellGrouped:
  assumes "tocStep gs item = Inr gs'" and "wellGrouped gs"
  shows "wellGrouped gs'"
proof -
  from tocStep_cases [OF assms(1)] show ?thesis
  proof (elim disjE conjE exE)
    fix n assume "isMarker item" "item = TocGroup n" "gs' = gs @ [\<lparr>g_group = n, g_modules = []\<rparr>]"
    with assms(2) show ?thesis by (auto simp: wellGrouped_def)
  next
    assume m: "\<not> isMarker item" and ne: "gs \<noteq> []"
      and gs': "gs' = butlast gs @ [(last gs)\<lparr>g_modules := g_modules (last gs) @
                     [\<lparr>mo_name = item, mo_hidden = False, mo_info = None\<rparr>]\<rparr>]"
    from ne have l: "last gs \<in> set gs" by simp
    have b: "set (butlast gs) \<subseteq> set gs" by (auto dest: in_set_butlastD)
    from assms(2) l b m show ?thesis unfolding gs' wellGrouped_def by auto
  qed
qed

lemma forEach_tocStep_wellGrouped:
  "forEachE tocStep items gs = Inr gs' \<Longrightarrow> wellGrouped gs \<Longrightarrow> wellGrouped gs'"
proof (induction items arbitrary: gs)
  case Nil
  then show ?case by simp
next
  case (Cons item items)
  from Cons.prems(1) obtain gs1 where s: "tocStep gs item = Inr gs1"
    and r: "forEachE tocStep items gs1 = Inr gs'" by (auto simp: thenE_eq_Inr)
  from tocStep_wellGrouped [OF s Cons.prems(2)] Cons.IH [OF r] show ?case by simp
qed

lemma loadToc_wellGrouped: "loadToc items = Inr gs \<Longrightarrow> wellGrouped gs"
  using forEach_tocStep_wellGrouped [of items "[]" gs] by (simp add: loadToc_def wellGrouped_def)

lemma specGroups_names:
  "\<forall>x\<in>set xs. \<not> isMarker x \<Longrightarrow>
     specGroups (xs @ ys) = (xs @ fst (specGroups ys), snd (specGroups ys))"
proof (induction xs)
  case Nil
  then show ?case by simp
next
  case (Cons x xs)
  then have ih: "specGroups (xs @ ys) = (xs @ fst (specGroups ys), snd (specGroups ys))"
    and x: "\<not> isMarker x" by simp_all
  from x ih show ?case by (cases x) simp_all
qed

lemma specGroups_tocOf: "wellGrouped gs \<Longrightarrow> specGroups (tocOf gs) = ([], groupsOf gs)"
proof (induction gs)
  case Nil
  then show ?case by (simp add: tocOf_def groupsOf_def)
next
  case (Cons g gs)
  from Cons.prems have wg: "wellGrouped gs" and n: "g_group g \<noteq> []"
    and ms: "\<forall>x\<in>set (map mo_name (g_modules g)). \<not> isMarker x"
    by (auto simp: wellGrouped_def)
  from Cons.IH [OF wg] specGroups_names [OF ms, of "tocOf gs"]
  have "specGroups (map mo_name (g_modules g) @ tocOf gs) =
          (map mo_name (g_modules g), groupsOf gs)" by simp
  moreover have "tocOf (g # gs) = TocGroup (g_group g) # map mo_name (g_modules g) @ tocOf gs"
    by (simp add: tocOf_def)
  ultimately show ?case using n by (simp add: groupsOf_def)
qed

lemma setInfo_groupsOf: "groupsOf (setInfo gs pos v) = groupsOf gs"
proof -
  obtain i i2 where pos: "pos = (i, i2)" by (cases pos)
  let ?f = "\<lambda>g. (g_group g, map mo_name (g_modules g))"
  let ?ms = "g_modules (gs ! i)"
  have "map mo_name (?ms[i2 := (?ms ! i2)\<lparr>mo_info := Some v\<rparr>]) = map mo_name ?ms"
    by (rule map_update_same) simp
  then have "?f ((gs ! i)\<lparr>g_modules := ?ms[i2 := (?ms ! i2)\<lparr>mo_info := Some v\<rparr>]\<rparr>) = ?f (gs ! i)"
    by simp
  then have "map ?f (gs[i := (gs ! i)\<lparr>g_modules := ?ms[i2 := (?ms ! i2)\<lparr>mo_info := Some v\<rparr>]\<rparr>]) = map ?f gs"
    by (rule map_update_same)
  with pos show ?thesis by (simp add: groupsOf_def setInfo_def)
qed

lemma docStep_groupsOf: "docStep L npm parent gs md = Inr gs' \<Longrightarrow> groupsOf gs' = groupsOf gs"
  by (auto simp: docStep_def thenE_eq_Inr setInfo_groupsOf split: option.splits)

lemma forEach_docStep_groupsOf:
  "forEachE (docStep L npm parent) docs gs = Inr gs' \<Longrightarrow> groupsOf gs' = groupsOf gs"
proof (induction docs arbitrary: gs)
  case Nil
  then show ?case by simp
next
  case (Cons md docs)
  from Cons.prems obtain gs1 where s: "docStep L npm parent gs md = Inr gs1"
    and r: "forEachE (docStep L npm parent) docs gs1 = Inr gs'" by (auto simp: thenE_eq_Inr)
  from Cons.IH [OF r] docStep_groupsOf [OF s] show ?case by simp
qed

lemma task_groupsOf: "task L pckg gs = Some gs' \<Longrightarrow> groupsOf gs' = groupsOf gs"
  by (auto simp: task_def Let_def forEach_docStep_groupsOf
      split: extraction.splits option.splits sum.splits)

lemma queue_groupsOf: "written (queue L pkgs gs log) = Some cfg \<Longrightarrow> groupsOf cfg = groupsOf gs"
proof (induction pkgs arbitrary: gs log)
  case Nil
  then show ?case by simp
next
  case (Cons p pkgs)
  show ?case
  proof (cases "task L p gs")
    case None
    with Cons.prems show ?thesis by simp
  next
    case (Some gs1)
    with Cons.prems have "written (queue L pkgs gs1 (log @ [pckg_name p])) = Some cfg" by simp
    then have "groupsOf cfg = groupsOf gs1" by (rule Cons.IH)
    with task_groupsOf [OF Some] show ?thesis by simp
  qed
qed

lemma sample_written: "written (createConfig sampleManifest samplePackages) \<noteq> None"
  by code_simp

lemma untouched_mono: "untouched N gs \<Longrightarrow> N \<subseteq> N' \<Longrightarrow> untouched N' gs"
  unfolding untouched_def by blast

lemma tocStep_untouched:
  assumes "tocStep gs item = Inr gs'" and "untouched {} gs"
  shows "untouched {} gs'"
proof (cases "\<exists>c cs. tocItemName item = Some (c # cs)")
  case True
  then obtain c cs where "tocItemName item = Some (c # cs)" by blast
  with assms show ?thesis by (auto simp: tocStep_def untouched_def)
next
  case False
  then have other: "tocStep gs item =
      (if gs = [] then Inl TypeError
       else Inr (butlast gs @ [(last gs)\<lparr>g_modules := g_modules (last gs) @
                   [\<lparr>mo_name = item, mo_hidden = False, mo_info = None\<rparr>]\<rparr>]))"
    by (auto simp: tocStep_def split: option.splits list.splits)
  with assms(1) have ne: "gs \<noteq> []" by auto
  with assms(1) other have gs': "gs' = butlast gs @ [(last gs)\<lparr>g_modules := g_modules (last gs) @
                   [\<lparr>mo_name = item, mo_hidden = False, mo_info = None\<rparr>]\<rparr>]" by simp
  from ne have l: "last gs \<in> set gs" by simp
  have b: "set (butlast gs) \<subseteq> set gs" by (auto dest: in_set_butlastD)
  from assms(2) l b show ?thesis unfolding gs' untouched_def by auto
qed

lemma forEach_tocStep_untouched:
  "forEachE tocStep items gs = Inr gs' \<Longrightarrow> untouched {} gs \<Longrightarrow> untouched {} gs'"
proof (induction items arbitrary: gs)
  case Nil
  then show ?case by simp
next
  case (Cons item items)
  from Cons.prems(1) obtain gs1 where s: "tocStep gs item = Inr gs1"
    and r: "forEachE tocStep items gs1 = Inr gs'" by (auto simp: thenE_eq_Inr)
  from tocStep_untouched [OF s Cons.prems(2)] Cons.IH [OF r] show ?case by simp
qed

lemma loadToc_untouched: "loadToc items = Inr gs \<Longrightarrow> untouched {} gs"
  using forEach_tocStep_untouched [of items "[]" gs] by (simp add: loadToc_def untouched_def)

lemma findModule_Some:
  "findModule ms name = Some i2 \<Longrightarrow> i2 < length ms \<and> mo_name (ms ! i2) = TocName name"
proof (induction ms arbitrary: i2)
  case Nil
  then show ?case by simp
next
  case (Cons m ms)
  show ?case
  proof (cases "mo_name m = TocName name")
    case True
    with Cons.prems show ?thesis by simp
  next
    case False
    with Cons.prems obtain j where "findModule ms name = Some j" "i2 = Suc j" by auto
    with Cons.IH show ?thesis by simp
  qed
qed

lemma findModule_None:
  "findModule ms name = None \<longleftrightarrow> (\<forall>m\<in>set ms. mo_name m \<noteq> TocName name)"
  by (induction ms) auto

lemma getModuleObj_Some:
  "getModuleObj gs name = Some (i, i2) \<Longrightarrow>
     i < length gs \<and> i2 < length (g_modules (gs ! i)) \<and>
     mo_name (g_modules (gs ! i) ! i2) = TocName name"
proof (induction gs arbitrary: i)
  case Nil
  then show ?case by simp
next
  case (Cons g gs)
  show ?case
  proof (cases "findModule (g_modules g) name")
    case (Some j)
    with Cons.prems have "i = 0" "i2 = j" by simp_all
    with findModule_Some [OF Some] show ?thesis by simp
  next
    case None
    with Cons.prems obtain k where "getModuleObj gs name = Some (k, i2)" "i = Suc k" by auto
    with Cons.IH show ?thesis by simp
  qed
qed

lemma getModuleObj_None:
  "getModuleObj gs name = None \<longleftrightarrow>
     (\<forall>g\<in>set gs. \<forall>m\<in>set (g_modules g). mo_name m \<noteq> TocName name)"
proof (induction gs)
  case Nil
  then show ?case by simp
next
  case (Cons g gs)
  show ?case
  proof (cases "findModule (g_modules g) name")
    case None
    then have "\<forall>m\<in>set (g_modules g). mo_name m \<noteq> TocName name"
      by (simp add: findModule_None)
    with None Cons.IH show ?thesis by auto
  next
    case (Some j)
    then have "findModule (g_modules g) name \<noteq> None" by simp
    with findModule_None [of "g_modules g" name]
    have "\<not> (\<forall>m\<in>set (g_modules g). mo_name m \<noteq> TocName name)" by blast
    with Some show ?thesis by auto
  qed
qed

lemma setInfo_untouched:
  assumes pos: "getModuleObj gs name = Some pos" and inv: "untouched N gs"
  shows "untouched (insert name N) (setInfo gs pos v)"
proof -
  obtain i i2 where p: "pos = (i, i2)" by (cases pos)
  let ?ms = "g_modules (gs ! i)"
  let ?m = "(?ms ! i2)\<lparr>mo_info := Some v\<rparr>"
  let ?g = "(gs ! i)\<lparr>g_modules := ?ms[i2 := ?m]\<rparr>"
  from pos p have i: "i < length gs" and i2: "i2 < length ?ms"
    and n: "mo_name (?ms ! i2) = TocName name"
    using getModuleObj_Some by blast+
  from i have gi: "gs ! i \<in> set gs" by simp
  from i2 have mi: "?ms ! i2 \<in> set ?ms" by simp
  have "mo_hidden m = False \<and> (mo_name m \<notin> TocName ` insert name N \<longrightarrow> mo_info m = None)"
    if g: "g \<in> set (gs[i := ?g])" and m: "m \<in> set (g_modules g)" for g m
  proof -
    from g have "g = ?g \<or> g \<in> set gs" using set_update_subset_insert by fastforce
    then consider "g \<in> set gs" | "g = ?g" by blast
    then show ?thesis
    proof cases
      case 1
      with inv m show ?thesis unfolding untouched_def by blast
    next
      case 2
      with m have "m \<in> set (?ms[i2 := ?m])" by simp
      then have "m = ?m \<or> m \<in> set ?ms" using set_update_subset_insert by fastforce
      then consider "m \<in> set ?ms" | "m = ?m" by blast
      then show ?thesis
      proof cases
        case 1
        with inv gi show ?thesis unfolding untouched_def by blast
      next
        case 2
        from inv gi mi have "mo_hidden (?ms ! i2) = False" unfolding untouched_def by blast
        with 2 n show ?thesis by simp
      qed
    qed
  qed
  with p show ?thesis unfolding untouched_def setInfo_def by simp
qed

lemma docStep_untouched:
  assumes "docStep L npm parent gs md = Inr gs'" and "untouched N gs"
  shows "untouched (insert (mt_name md) N) gs'"
proof (cases "getModuleObj gs (mt_name md)")
  case None
  with assms(1) have "gs' = gs" by (simp add: docStep_def)
  with assms(2) show ?thesis using untouched_mono by blast
next
  case (Some pos)
  with assms(1) obtain v where "gs' = setInfo gs pos v"
    by (auto simp: docStep_def thenE_eq_Inr)
  with setInfo_untouched [OF Some assms(2)] show ?thesis by simp
qed

lemma forEach_docStep_untouched:
  "forEachE (docStep L npm parent) ds gs = Inr gs' \<Longrightarrow> untouched N gs \<Longrightarrow>
     untouched (N \<union> mt_name ` set ds) gs'"
proof (induction ds arbitrary: gs N)
  case Nil
  then show ?case by simp
next
  case (Cons md ds)
  from Cons.prems(1) obtain gs1 where s: "docStep L npm parent gs md = Inr gs1"
    and r: "forEachE (docStep L npm parent) ds gs1 = Inr gs'" by (auto simp: thenE_eq_Inr)
  from docStep_untouched [OF s Cons.prems(2)] have "untouched (insert (mt_name md) N) gs1" .
  from Cons.IH [OF r this] show ?case by simp
qed

lemma task_Some:
  "task L p gs = Some gs' \<Longrightarrow>
     \<exists>ds. pckg_docs p = Resolved (Some ds) \<and>
       forEachE (docStep L (pckg_name p) (if length ds > 1 then Some (pckg_name p) else None)) ds gs
         = Inr gs'"
  by (auto simp: task_def Let_def split: extraction.splits option.splits sum.splits)

lemma task_untouched:
  assumes "task L p gs = Some gs'" and "untouched N gs"
  shows "untouched (N \<union> documented [p]) gs'"
proof -
  from task_Some [OF assms(1)] obtain ds where ds: "pckg_docs p = Resolved (Some ds)"
    and f: "forEachE (docStep L (pckg_name p) (if length ds > 1 then Some (pckg_name p) else None))
              ds gs = Inr gs'" by blast
  from ds have "documented [p] = mt_name ` set ds" by (auto simp: documented_def)
  with forEach_docStep_untouched [OF f assms(2)] show ?thesis by simp
qed

lemma documented_Cons: "documented (p # pkgs) = documented [p] \<union> documented pkgs"
  by (auto simp: documented_def)

lemma queue_untouched:
  "written (queue L pkgs gs log) = Some cfg \<Longrightarrow> untouched N gs \<Longrightarrow>
     untouched (N \<union> documented pkgs) cfg"
proof (induction pkgs arbitrary: gs log N)
  case Nil
  then show ?case by (simp add: documented_def)
next
  case (Cons p pkgs)
  show ?case
  proof (cases "task L p gs")
    case None
    with Cons.prems(1) show ?thesis by simp
  next
    case (Some gs1)
    with Cons.prems(1) have w: "written (queue L pkgs gs1 (log @ [pckg_name p])) = Some cfg"
      by simp
    from task_untouched [OF Some Cons.prems(2)] have "untouched (N \<union> documented [p]) gs1" .
    from Cons.IH [OF w this] have "untouched (N \<union> documented [p] \<union> documented pkgs) cfg" .
    moreover have "N \<union> documented [p] \<union> documented pkgs = N \<union> documented (p # pkgs)"
      using documented_Cons [of p pkgs] by blast
    ultimately show ?thesis by (simp only:)
  qed
qed

lemma sample_has_area:
  "(case written (createConfig sampleManifest samplePackages) of
      None \<Rightarrow> False
    | Some config \<Rightarrow>
        list_ex (\<lambda>g. list_ex (\<lambda>m. mo_name m = TocName ''area'') (g_modules g)) config)"
  by code_simp

lemma task_Rejected: "pckg_docs p = Rejected \<Longrightarrow> task L p gs = None"
  by (simp add: task_def)

lemma queue_rejected:
  assumes "pckg_docs p = Rejected"
  shows "written (queue L (pre @ p # post) gs log) = None \<and>
         (\<exists>k\<le>Suc (length pre).
            parsed (queue L (pre @ p # post) gs log) =
              log @ take k (map pckg_name (pre @ p # post)))"
proof (induction pre arbitrary: gs log)
  case Nil
  have "parsed (queue L ([] @ p # post) gs log) = log @ take 1 (map pckg_name ([] @ p # post))"
    using assms by (simp add: task_Rejected)
  moreover have "written (queue L ([] @ p # post) gs log) = None"
    using assms by (simp add: task_Rejected)
  ultimately show ?case by (intro conjI exI [of _ 1]) simp_all
next
  case (Cons q pre)
  show ?case
  proof (cases "task L q gs")
    case None
    then have "parsed (queue L ((q # pre) @ p # post) gs log) =
        log @ take 1 (map pckg_name ((q # pre) @ p # post))" by simp
    moreover from None have "written (queue L ((q # pre) @ p # post) gs log) = None" by simp
    ultimately show ?thesis by (intro conjI exI [of _ 1]) simp_all
  next
    case (Some gs1)
    from Cons.IH [of gs1 "log @ [pckg_name q]"] obtain k
      where w: "written (queue L (pre @ p # post) gs1 (log @ [pckg_name q])) = None"
        and k: "k \<le> Suc (length pre)"
        and l: "parsed (queue L (pre @ p # post) gs1 (log @ [pckg_name q])) =
              (log @ [pckg_name q]) @ take k (map pckg_name (pre @ p # post))" by blast
    from Some l have "parsed (queue L ((q # pre) @ p # post) gs log) =
        log @ take (Suc k) (map pckg_name ((q # pre) @ p # post))" by simp
    moreover from Some w have "written (queue L ((q # pre) @ p # post) gs log) = None" by simp
    moreover from k have "Suc k \<le> Suc (length (q # pre))" by simp
    ultimately show ?thesis by blast
  qed
qed

lemma queue_written:
  "written (queue L pkgs gs log) = Some cfg \<Longrightarrow>
     (\<forall>p\<in>set pkgs. \<exists>ds. pckg_docs p = Resolved (Some ds)) \<and>
     parsed (queue L pkgs gs log) = log @ map pckg_name pkgs"
proof (induction pkgs arbitrary: gs log)
  case Nil
  then show ?case by simp
next
  case (Cons p pkgs)
  show ?case
  proof (cases "task L p gs")
    case None
    with Cons.prems show ?thesis by simp
  next
    case (Some gs1)
    with Cons.prems have "written (queue L pkgs gs1 (log @ [pckg_name p])) = Some cfg" by simp
    from Cons.IH [OF this] have "\<forall>p\<in>set pkgs. \<exists>ds. pckg_docs p = Resolved (Some ds)"
      and "parsed (queue L pkgs gs1 (log @ [pckg_name p])) = (log @ [pckg_name p]) @ map pckg_name pkgs"
      by blast+
    moreover from task_Some [OF Some] have "\<exists>ds. pckg_docs p = Resolved (Some ds)" by blast
    ultimately show ?thesis using Some by simp
  qed
qed

lemma rejecting_parsed:
  "parsed (createConfig sampleManifest rejectingPackages) = [''@turf/along'', ''@turf/area'']"
  by code_simp

section \<open>Facts about the parameter table\<close>

lemma set_insertLeft: "set (insertLeft cmp x ys) = insert x (set ys)"
  by (induction ys) (auto split: option.splits)

lemma length_insertLeft: "length (insertLeft cmp x ys) = Suc (length ys)"
  by (induction ys) (auto split: option.splits)

lemma insertLeft_descending:
  "sorted_wrt (\<lambda>a b. pa_lineNumber a \<ge> pa_lineNumber b) ys \<Longrightarrow>
     sorted_wrt (\<lambda>a b. pa_lineNumber a \<ge> pa_lineNumber b) (insertLeft compareParam x ys)"
proof (induction ys)
  case Nil
  then show ?case by simp
next
  case (Cons y ys)
  show ?case
  proof (cases "pa_lineNumber y - pa_lineNumber x > 0")
    case True
    with Cons show ?thesis by (auto simp: compareParam_def set_insertLeft)
  next
    case False
    with Cons.prems show ?thesis by (fastforce simp: compareParam_def)
  qed
qed

lemma foldl_insertLeft_descending:
  "sorted_wrt (\<lambda>a b. pa_lineNumber a \<ge> pa_lineNumber b) acc \<Longrightarrow>
     sorted_wrt (\<lambda>a b. pa_lineNumber a \<ge> pa_lineNumber b)
       (foldl (\<lambda>pre x. insertLeft compareParam x pre) acc xs)"
  by (induction xs arbitrary: acc) (simp_all add: insertLeft_descending)

lemma set_foldl_insertLeft:
  "set (foldl (\<lambda>pre x. insertLeft cmp x pre) acc xs) = set acc \<union> set xs"
  by (induction xs arbitrary: acc) (auto simp: set_insertLeft)

lemma length_foldl_insertLeft:
  "length (foldl (\<lambda>pre x. insertLeft cmp x pre) acc xs) = length acc + length xs"
  by (induction xs arbitrary: acc) (simp_all add: length_insertLeft)

lemma arraySort_sorted: "sorted (map pa_lineNumber (arraySort compareParam xs))"
proof -
  have "sorted_wrt (\<lambda>a b. pa_lineNumber a \<ge> pa_lineNumber b)
          (foldl (\<lambda>pre x. insertLeft compareParam x pre) [] xs)"
    by (rule foldl_insertLeft_descending) simp
  then have "sorted_wrt (\<lambda>a b. pa_lineNumber a \<le> pa_lineNumber b) (arraySort compareParam xs)"
    by (simp add: arraySort_def sorted_wrt_rev)
  then show ?thesis by (simp add: sorted_map)
qed

lemma set_arraySort: "set (arraySort cmp xs) = set xs"
  by (simp add: arraySort_def set_foldl_insertLeft)

lemma length_arraySort: "length (arraySort cmp xs) = length xs"
  by (simp add: arraySort_def length_foldl_insertLeft)

lemma insertLeft_rel:
  assumes agree: "\<And>a b a' b'. R a b \<Longrightarrow> R a' b' \<Longrightarrow> cmpX a a' = cmpY b b'"
  shows "R x y \<Longrightarrow> list_all2 R xs ys \<Longrightarrow>
           list_all2 R (insertLeft cmpX x xs) (insertLeft cmpY y ys)"
proof (induction xs arbitrary: ys)
  case Nil
  then show ?case by simp
next
  case (Cons a xs)
  from Cons.prems(2) obtain b ys' where ys: "ys = b # ys'" and ab: "R a b"
    and rest: "list_all2 R xs ys'" by (auto simp: list_all2_Cons1)
  from agree [OF ab Cons.prems(1)] have c: "cmpX a x = cmpY b y" .
  from Cons.IH [OF Cons.prems(1) rest] Cons.prems(1) ab rest ys c show ?case
    by (auto split: option.splits)
qed

lemma foldl_insertLeft_rel:
  assumes agree: "\<And>a b a' b'. R a b \<Longrightarrow> R a' b' \<Longrightarrow> cmpX a a' = cmpY b b'"
  shows "list_all2 R xs ys \<Longrightarrow> list_all2 R accx accy \<Longrightarrow>
           list_all2 R (foldl (\<lambda>pre x. insertLeft cmpX x pre) accx xs)
                       (foldl (\<lambda>pre x. insertLeft cmpY x pre) accy ys)"
proof (induction xs arbitrary: ys accx accy)
  case Nil
  then show ?case by simp
next
  case (Cons a xs)
  from Cons.prems(1) obtain b ys' where ys: "ys = b # ys'" and ab: "R a b"
    and rest: "list_all2 R xs ys'" by (auto simp: list_all2_Cons1)
  from insertLeft_rel [of R cmpX cmpY, OF agree ab Cons.prems(2)]
  have "list_all2 R (insertLeft cmpX a accx) (insertLeft cmpY b accy)" by blast
  from Cons.IH [OF rest this] ys show ?case by simp
qed

lemma arraySort_rel:
  assumes agree: "\<And>a b a' b'. R a b \<Longrightarrow> R a' b' \<Longrightarrow> cmpX a a' = cmpY b b'"
    and "list_all2 R xs ys"
  shows "list_all2 R (arraySort cmpX xs) (arraySort cmpY ys)"
proof -
  have "list_all2 R (foldl (\<lambda>pre x. insertLeft cmpX x pre) [] xs)
                    (foldl (\<lambda>pre x. insertLeft cmpY x pre) [] ys)"
    using agree assms(2) by (intro foldl_insertLeft_rel) simp_all
  then show ?thesis by (simp add: arraySort_def)
qed

lemma filter_rel:
  "list_all2 R xs ys \<Longrightarrow> (\<And>x y. R x y \<Longrightarrow> P x = Q y) \<Longrightarrow>
     list_all2 (\<lambda>x y. R x y \<and> P x) (filter P xs) (filter Q ys)"
proof (induction xs arbitrary: ys)
  case Nil
  then show ?case by simp
next
  case (Cons a xs)
  from Cons.prems(1) obtain b ys' where ys: "ys = b # ys'" and ab: "R a b"
    and rest: "list_all2 R xs ys'" by (auto simp: list_all2_Cons1)
  from Cons.IH [OF rest Cons.prems(2)] Cons.prems(2) [OF ab] ab ys show ?case by simp
qed

text \<open>
  Without placeholders the sort does what C3 says: when every typed parameter has
  descriptive text (and renders), the table is the rendering, line numbers deleted, of
  the typed parameters in ascending order of their line numbers.
\<close>

lemma params_sorted_without_placeholders:
  assumes ps: "mt_params md = Some ps"
    and described: "\<forall>p\<in>set ps. pa_type p \<noteq> None \<longrightarrow>
                 (\<exists>b bs. md_children (pa_description p) = Some (b # bs))"
    and ok: "\<forall>p\<in>set ps. \<exists>y. paramEntry L p = Inr y"
  shows "\<exists>qs out. set qs = {p \<in> set ps. pa_type p \<noteq> None} \<and>
           length qs = length (filter (\<lambda>p. pa_type p \<noteq> None) ps) \<and>
           sorted (map pa_lineNumber qs) \<and>
           getParams L md = Inr (FArr out) \<and> length out = length qs \<and>
           (\<forall>i<length qs. \<exists>t d. out ! i = ParRec (pa_name (qs ! i)) t d None \<and>
              getType L (pa_type (qs ! i)) True = Inr t)"
proof -
  let ?typed = "\<lambda>p. pa_type p \<noteq> None"
  let ?R = "\<lambda>p y. paramEntry L p = Inr y"
  let ?R' = "\<lambda>p y. (?R p y \<and> p \<in> set ps) \<and> ?typed p"
  from ok obtain outs where outs: "mapE (paramEntry L) ps = Inr outs" using mapE_total by blast
  then have all2: "list_all2 ?R ps outs" by (simp add: mapE_eq_Inr)
  then have all2': "list_all2 (\<lambda>p y. ?R p y \<and> p \<in> set ps) ps outs"
    by (auto simp: list_all2_conv_all_nth)
  have null: "?typed p = typeNotNull y" if "?R p y \<and> p \<in> set ps" for p y
  proof (cases "pa_type p")
    case None
    with that show ?thesis by (simp add: paramEntry_def)
  next
    case (Some t)
    with that described obtain b bs where "md_children (pa_description p) = Some (b # bs)" by blast
    with that Some show ?thesis
      by (auto simp: paramEntry_def noChildren_def thenE_eq_Inr)
  qed
  have rec: "\<exists>t d. y = ParRec (pa_name p) t d (Some (pa_lineNumber p)) \<and>
                   getType L (pa_type p) True = Inr t" if "?R' p y" for p y
  proof -
    from that obtain t where t: "pa_type p = Some t" by auto
    with that described obtain b bs where "md_children (pa_description p) = Some (b # bs)" by blast
    with that t show ?thesis by (auto simp: paramEntry_def noChildren_def thenE_eq_Inr)
  qed
  from filter_rel [of "\<lambda>p y. ?R p y \<and> p \<in> set ps" ps outs ?typed typeNotNull, OF all2' null]
  have f: "list_all2 ?R' (filter ?typed ps) (filter typeNotNull outs)" by blast
  have agree: "compareParam a a' = compareLineNum b b'" if "?R' a b" "?R' a' b'" for a b a' b'
    using rec [OF that(1)] rec [OF that(2)] by (auto simp: compareParam_def)
  let ?qs = "arraySort compareParam (filter ?typed ps)"
  let ?ys = "arraySort compareLineNum (filter typeNotNull outs)"
  from arraySort_rel [of ?R' compareParam compareLineNum, OF agree f]
  have s: "list_all2 ?R' ?qs ?ys" by blast
  have res: "getParams L md = Inr (FArr (map deleteLineNum ?ys))"
    using ps outs by (simp add: getParams_def)
  have len: "length (map deleteLineNum ?ys) = length ?qs"
    using s by (simp add: list_all2_lengthD)
  have rows: "\<forall>i<length ?qs. \<exists>t d. map deleteLineNum ?ys ! i = ParRec (pa_name (?qs ! i)) t d None \<and>
              getType L (pa_type (?qs ! i)) True = Inr t"
  proof (intro allI impI)
    fix i assume i: "i < length ?qs"
    with s have "?R' (?qs ! i) (?ys ! i)" by (rule list_all2_nthD)
    from rec [OF this] obtain t d
      where "?ys ! i = ParRec (pa_name (?qs ! i)) t d (Some (pa_lineNumber (?qs ! i)))"
        and "getType L (pa_type (?qs ! i)) True = Inr t" by blast
    moreover from i len have "i < length ?ys" by simp
    ultimately show "\<exists>t d. map deleteLineNum ?ys ! i = ParRec (pa_name (?qs ! i)) t d None \<and>
              getType L (pa_type (?qs ! i)) True = Inr t" by simp
  qed
  have "set ?qs = {p \<in> set ps. pa_type p \<noteq> None}" by (simp add: set_arraySort)
  moreover have "length ?qs = length (filter ?typed ps)" by (rule length_arraySort)
  moreover have "sorted (map pa_lineNumber ?qs)" by (rule arraySort_sorted)
  ultimately show ?thesis using res len rows by blast
qed

section \<open>The claims\<close>

subsection \<open>C1: the description\<close>




subsection \<open>C2: snippet and hasMap\<close>

text \<open>
  C2 (as amended).  With no example the snippet is \<^verbatim>\<open>false\<close> and
  \<^verbatim>\<open>hasMap\<close> is false.  Otherwise \<^verbatim>\<open>hasMap\<close> holds exactly when the first
  example's text contains \<^verbatim>\<open>//addToMap\<close>, and the snippet is that text cut before
  the first occurrence of a line feed followed by \<^verbatim>\<open>//addToMap\<close> (the line feed
  is cut off too); it is the whole text when there is no such occurrence.  For the text
  \<^verbatim>\<open>foo\n//addToMap\nbar\<close> the snippet is \<^verbatim>\<open>foo\<close> and \<^verbatim>\<open>hasMap\<close> is true.
\<close>

theorem snippet_hasMap:
  "(mt_examples md = [] \<longrightarrow> getSnippet md = JFalse \<and> \<not> hasMap md) \<and>
   (\<forall>ex rest. mt_examples md = ex # rest \<longrightarrow>
      (hasMap md \<longleftrightarrow> (\<exists>a b. ex_description ex = a @ ''//addToMap'' @ b)) \<and>
      ((\<nexists>a b. ex_description ex = a @ CHR 0x0A # ''//addToMap'' @ b) \<longrightarrow>
         getSnippet md = JStr (ex_description ex)) \<and>
      (\<forall>a b. ex_description ex = a @ CHR 0x0A # ''//addToMap'' @ b \<and>
             (\<forall>i<length a. \<nexists>r. drop i (ex_description ex) = CHR 0x0A # ''//addToMap'' @ r) \<longrightarrow>
             getSnippet md = JStr a)) \<and>
   getSnippet (md\<lparr>mt_examples :=
       [\<lparr>ex_description = ''foo'' @ [CHR 0x0A] @ ''//addToMap'' @ [CHR 0x0A] @ ''bar''\<rparr>]\<rparr>) = JStr ''foo'' \<and>
   hasMap (md\<lparr>mt_examples :=
       [\<lparr>ex_description = ''foo'' @ [CHR 0x0A] @ ''//addToMap'' @ [CHR 0x0A] @ ''bar''\<rparr>]\<rparr>)"
proof (intro conjI allI impI)
  assume "mt_examples md = []"
  then show "getSnippet md = JFalse" by simp
next
  assume "mt_examples md = []"
  then show "\<not> hasMap md" by simp
next
  fix ex rest assume "mt_examples md = ex # rest"
  then show "hasMap md \<longleftrightarrow> (\<exists>a b. ex_description ex = a @ ''//addToMap'' @ b)"
    by (simp add: includes_iff addToMap_def)
next
  fix ex rest
  assume ex: "mt_examples md = ex # rest"
    and none: "\<nexists>a b. ex_description ex = a @ CHR 0x0A # ''//addToMap'' @ b"
  from none have "\<not> str_includes (nl # addToMap) (ex_description ex)"
    by (simp add: includes_iff addToMap_def nl_def)
  then have "split_head (nl # addToMap) (ex_description ex) = ex_description ex"
    by (rule split_head_none)
  with ex show "getSnippet md = JStr (ex_description ex)" by simp
next
  fix ex rest a b
  assume ex: "mt_examples md = ex # rest"
    and first: "ex_description ex = a @ CHR 0x0A # ''//addToMap'' @ b \<and>
      (\<forall>i<length a. \<nexists>r. drop i (ex_description ex) = CHR 0x0A # ''//addToMap'' @ r)"
  from first have eq: "ex_description ex = a @ (nl # addToMap) @ b"
    by (simp add: addToMap_def nl_def)
  from first have "\<forall>i<length a. \<nexists>r. drop i (ex_description ex) = CHR 0x0A # ''//addToMap'' @ r"
    by (rule conjunct2)
  then have "\<forall>i<length a. \<not> startsWith (nl # addToMap) (drop i (ex_description ex))"
    by (simp add: startsWith_iff addToMap_def nl_def)
  then have "\<forall>i<length a. \<not> startsWith (nl # addToMap) (drop i (a @ (nl # addToMap) @ b))"
    by (simp only: eq)
  then have "split_head (nl # addToMap) (a @ (nl # addToMap) @ b) = a"
    by (intro split_head_first) simp_all
  with ex eq show "getSnippet md = JStr a" by simp
next
  show "getSnippet (md\<lparr>mt_examples :=
       [\<lparr>ex_description = ''foo'' @ [CHR 0x0A] @ ''//addToMap'' @ [CHR 0x0A] @ ''bar''\<rparr>]\<rparr>) = JStr ''foo''"
    by (simp add: addToMap_def nl_def)
next
  show "hasMap (md\<lparr>mt_examples :=
       [\<lparr>ex_description = ''foo'' @ [CHR 0x0A] @ ''//addToMap'' @ [CHR 0x0A] @ ''bar''\<rparr>]\<rparr>)"
    by (simp add: addToMap_def)
qed

text \<open>The theorem at the sample symbol, whose example is the text of the claim.\<close>

theorem snippet_hasMap_witness:
  "mt_examples sampleMeta \<noteq> [] \<and> hasMap sampleMeta \<and> getSnippet sampleMeta = JStr ''foo''"
proof -
  let ?ex = "\<lparr>ex_description = ''foo'' @ [CHR 0x0A] @ ''//addToMap'' @ [CHR 0x0A] @ ''bar''\<rparr>"
  have ex: "mt_examples sampleMeta = ?ex # []" by (simp add: sampleMeta_def)
  have dec: "ex_description ?ex = ''foo'' @ CHR 0x0A # ''//addToMap'' @ (CHR 0x0A # ''bar'')" by simp
  have first: "\<forall>i<length ''foo''. \<nexists>r. drop i (ex_description ?ex) = CHR 0x0A # ''//addToMap'' @ r"
  proof (intro allI impI)
    fix i :: nat assume "i < length ''foo''"
    then have "i = 0 \<or> i = 1 \<or> i = 2" by auto
    then show "\<nexists>r. drop i (ex_description ?ex) = CHR 0x0A # ''//addToMap'' @ r" by auto
  qed
  from snippet_hasMap [of sampleMeta] ex
  have all: "(hasMap sampleMeta \<longleftrightarrow> (\<exists>a b. ex_description ?ex = a @ ''//addToMap'' @ b)) \<and>
      (\<forall>a b. ex_description ?ex = a @ CHR 0x0A # ''//addToMap'' @ b \<and>
             (\<forall>i<length a. \<nexists>r. drop i (ex_description ?ex) = CHR 0x0A # ''//addToMap'' @ r) \<longrightarrow>
             getSnippet sampleMeta = JStr a)" by blast
  then have s: "getSnippet sampleMeta = JStr ''foo''" using dec first by blast
  have "ex_description ?ex = (''foo'' @ [CHR 0x0A]) @ ''//addToMap'' @ (CHR 0x0A # ''bar'')" by simp
  then have "\<exists>a b. ex_description ?ex = a @ ''//addToMap'' @ b" by blast
  with all have h: "hasMap sampleMeta" by blast
  from ex s h show ?thesis by simp
qed

text \<open>C2 as stated asks for the snippet \<^verbatim>\<open>foo\n\<close>, with the line feed kept.\<close>

theorem snippet_newline_counterexample:
  "getSnippet sampleMeta \<noteq> JStr (''foo'' @ [CHR 0x0A])"
  by (simp add: sampleMeta_def addToMap_def nl_def)

subsection \<open>C3: the parameter table\<close>

text \<open>
  C3 asks for the parameters in ascending order of their line numbers.  The comparator
  reads \<^verbatim>\<open>_lineNum\<close> on the \<^verbatim>\<open>false\<close> placeholders too, where it is undefined:
  every comparison with a placeholder is \<^verbatim>\<open>NaN\<close>.  Here the placeholder stands
  between the two records, every comparison the sort makes has it as an operand, and the
  parameter of line 5 stays before the parameter of line 3.  Without placeholders the order is the one C3 states, as
  \<open>params_sorted_without_placeholders\<close> shows.
\<close>

theorem params_placeholder_breaks_sort:
  "getParams (\<lambda>k. None) unsortedMeta =
     Inr (FArr [ParRec ''a'' (JStr ''Number'') (JStr ''first'') None, ParFalse,
                ParRec ''c'' (JStr ''Number'') (JStr ''third'') None])"
  by (simp add: unsortedMeta_def getParams_def lineParam_def paramEntry_def noChildren_def
      firstBlock_def blockNode_def textNode_def concatTags_def concatTag_def arraySort_def)

subsection \<open>C4: the options table\<close>

text \<open>
  C4 (as amended).  \<^verbatim>\<open>options\<close> is \<^verbatim>\<open>false\<close> when the metadata has no
  \<^verbatim>\<open>params\<close>, and \<^verbatim>\<open>null\<close> when no parameter is named \<^verbatim>\<open>options\<close>.  Otherwise
  the first parameter of that name decides.  When it has an array of documented
  properties, the description of each property has a first block, and the type and that
  block of each property render, the table has one row per property, in order.
  \<^verbatim>\<open>Prop\<close> is the name without its \<^verbatim>\<open>options.\<close> prefix (in general, without
  the first occurrence of \<^verbatim>\<open>options.\<close>; a name that does not contain it is kept);
  \<^verbatim>\<open>Default\<close> is \<^verbatim>\<open>null\<close> without a default or with an empty one, the default
  itself when it holds no backslash, and the default without its first backslash
  otherwise.  Quotes are kept.
\<close>

theorem options_table:
  "(mt_params md = None \<longrightarrow> getOptions L md = Inr FFalse) \<and>
   (\<forall>ps. mt_params md = Some ps \<and> (\<forall>p\<in>set ps. pa_name p \<noteq> ''options'') \<longrightarrow>
      getOptions L md = Inr FNull) \<and>
   (\<forall>pre opt post props.
      mt_params md = Some (pre @ opt # post) \<and> (\<forall>p\<in>set pre. pa_name p \<noteq> ''options'') \<and>
      pa_name opt = ''options'' \<and> pa_properties opt = Some props \<and>
      (\<forall>pr\<in>set props. \<exists>blk bs t d. md_children (pr_description pr) = Some (blk # bs) \<and>
           getType L (pr_type pr) False = Inr t \<and> concatTags L (md_children blk) False = Inr d) \<longrightarrow>
      (\<exists>out. getOptions L md = Inr (FArr out) \<and> length out = length props \<and>
         (\<forall>i<length props.
            (\<forall>r. pr_name (props ! i) = ''options.'' @ r \<longrightarrow> Prop (out ! i) = r) \<and>
            ((\<nexists>a b. pr_name (props ! i) = a @ ''options.'' @ b) \<longrightarrow>
               Prop (out ! i) = pr_name (props ! i)) \<and>
            (\<forall>a b. pr_name (props ! i) = a @ ''options.'' @ b \<and>
                   (\<forall>j<length a. \<nexists>r. drop j (pr_name (props ! i)) = ''options.'' @ r) \<longrightarrow>
               Prop (out ! i) = a @ b) \<and>
            (pr_default (props ! i) = None \<or> pr_default (props ! i) = Some [] \<longrightarrow>
               Default (out ! i) = JNull) \<and>
            (\<forall>v. pr_default (props ! i) = Some v \<and> v \<noteq> [] \<and> CHR 0x5C \<notin> set v \<longrightarrow>
               Default (out ! i) = JStr v) \<and>
            (\<forall>a b. pr_default (props ! i) = Some (a @ CHR 0x5C # b) \<and> CHR 0x5C \<notin> set a \<longrightarrow>
               Default (out ! i) = JStr (a @ b)) \<and>
            getType L (pr_type (props ! i)) False = Inr (OType (out ! i)) \<and>
            (\<exists>blk bs. md_children (pr_description (props ! i)) = Some (blk # bs) \<and>
               concatTags L (md_children blk) False = Inr (ODescription (out ! i))))))"
proof (intro conjI allI impI)
  assume "mt_params md = None"
  then show "getOptions L md = Inr FFalse" by (simp add: getOptions_def)
next
  fix ps assume h: "mt_params md = Some ps \<and> (\<forall>p\<in>set ps. pa_name p \<noteq> ''options'')"
  from h have ps: "mt_params md = Some ps" by (rule conjunct1)
  from h have "\<forall>p\<in>set ps. pa_name p \<noteq> ''options''" by (rule conjunct2)
  then have "filter (\<lambda>p. pa_name p = ''options'') ps = []" by (simp only: filter_empty_conv)
  with ps show "getOptions L md = Inr FNull" by (simp add: getOptions_def)
next
  fix pre opt post props
  assume "mt_params md = Some (pre @ opt # post) \<and> (\<forall>p\<in>set pre. pa_name p \<noteq> ''options'') \<and>
      pa_name opt = ''options'' \<and> pa_properties opt = Some props \<and>
      (\<forall>pr\<in>set props. \<exists>blk bs t d. md_children (pr_description pr) = Some (blk # bs) \<and>
           getType L (pr_type pr) False = Inr t \<and> concatTags L (md_children blk) False = Inr d)"
  then show "\<exists>out. getOptions L md = Inr (FArr out) \<and> length out = length props \<and>
         (\<forall>i<length props.
            (\<forall>r. pr_name (props ! i) = ''options.'' @ r \<longrightarrow> Prop (out ! i) = r) \<and>
            ((\<nexists>a b. pr_name (props ! i) = a @ ''options.'' @ b) \<longrightarrow>
               Prop (out ! i) = pr_name (props ! i)) \<and>
            (\<forall>a b. pr_name (props ! i) = a @ ''options.'' @ b \<and>
                   (\<forall>j<length a. \<nexists>r. drop j (pr_name (props ! i)) = ''options.'' @ r) \<longrightarrow>
               Prop (out ! i) = a @ b) \<and>
            (pr_default (props ! i) = None \<or> pr_default (props ! i) = Some [] \<longrightarrow>
               Default (out ! i) = JNull) \<and>
            (\<forall>v. pr_default (props ! i) = Some v \<and> v \<noteq> [] \<and> CHR 0x5C \<notin> set v \<longrightarrow>
               Default (out ! i) = JStr v) \<and>
            (\<forall>a b. pr_default (props ! i) = Some (a @ CHR 0x5C # b) \<and> CHR 0x5C \<notin> set a \<longrightarrow>
               Default (out ! i) = JStr (a @ b)) \<and>
            getType L (pr_type (props ! i)) False = Inr (OType (out ! i)) \<and>
            (\<exists>blk bs. md_children (pr_description (props ! i)) = Some (blk # bs) \<and>
               concatTags L (md_children blk) False = Inr (ODescription (out ! i))))"
    by (elim conjE) (rule options_rows)
qed

text \<open>The theorem at the symbol whose \<^verbatim>\<open>options.units\<close> defaults to
  \<^verbatim>\<open>'kilometers'\<close>.\<close>

theorem options_table_witness:
  "\<exists>out. getOptions (\<lambda>k. None) optionsMeta = Inr (FArr out) \<and> length out = 1 \<and>
         Prop (out ! 0) = ''units'' \<and> Default (out ! 0) = JStr (quoted ''kilometers'') \<and>
         OType (out ! 0) = JStr ''string''"
proof -
  let ?L = "\<lambda>k::string. None::string option"
  let ?props = "[unitsProperty]"
  have ps: "mt_params optionsMeta = Some ([] @ optionsParam # [])"
    by (simp add: optionsMeta_def)
  have pre: "\<forall>p\<in>set []. pa_name p \<noteq> ''options''" by simp
  have opt: "pa_name optionsParam = ''options''" by (simp add: optionsParam_def)
  have props: "pa_properties optionsParam = Some ?props" by (simp add: optionsParam_def)
  have ty: "getType ?L (pr_type unitsProperty) False = Inr (JStr ''string'')"
    by (simp add: unitsProperty_def)
  have "md_children (pr_description unitsProperty) = Some (blockNode [textNode ''units''] # []) \<and>
        getType ?L (pr_type unitsProperty) False = Inr (JStr ''string'') \<and>
        concatTags ?L (md_children (blockNode [textNode ''units''])) False = Inr (JStr ''units'')"
    by (simp add: unitsProperty_def blockNode_def textNode_def concatTags_def concatTag_def)
  then have ok: "\<forall>pr\<in>set ?props. \<exists>blk bs t d. md_children (pr_description pr) = Some (blk # bs) \<and>
           getType ?L (pr_type pr) False = Inr t \<and> concatTags ?L (md_children blk) False = Inr d"
    by (simp only: list.set ball_simps) blast
  from ps pre opt props ok
  have h: "mt_params optionsMeta = Some ([] @ optionsParam # []) \<and>
      (\<forall>p\<in>set []. pa_name p \<noteq> ''options'') \<and>
      pa_name optionsParam = ''options'' \<and> pa_properties optionsParam = Some ?props \<and>
      (\<forall>pr\<in>set ?props. \<exists>blk bs t d. md_children (pr_description pr) = Some (blk # bs) \<and>
           getType ?L (pr_type pr) False = Inr t \<and> concatTags ?L (md_children blk) False = Inr d)"
    by (intro conjI)
  note t = options_table [of optionsMeta ?L, THEN conjunct2, THEN conjunct2, THEN spec, THEN spec,
      THEN spec, THEN spec, THEN mp, OF h]
  then obtain out where out: "getOptions ?L optionsMeta = Inr (FArr out)"
    and len: "length out = length ?props"
    and rows: "\<forall>i<length ?props.
            (\<forall>r. pr_name (?props ! i) = ''options.'' @ r \<longrightarrow> Prop (out ! i) = r) \<and>
            ((\<nexists>a b. pr_name (?props ! i) = a @ ''options.'' @ b) \<longrightarrow>
               Prop (out ! i) = pr_name (?props ! i)) \<and>
            (\<forall>a b. pr_name (?props ! i) = a @ ''options.'' @ b \<and>
                   (\<forall>j<length a. \<nexists>r. drop j (pr_name (?props ! i)) = ''options.'' @ r) \<longrightarrow>
               Prop (out ! i) = a @ b) \<and>
            (pr_default (?props ! i) = None \<or> pr_default (?props ! i) = Some [] \<longrightarrow>
               Default (out ! i) = JNull) \<and>
            (\<forall>v. pr_default (?props ! i) = Some v \<and> v \<noteq> [] \<and> CHR 0x5C \<notin> set v \<longrightarrow>
               Default (out ! i) = JStr v) \<and>
            (\<forall>a b. pr_default (?props ! i) = Some (a @ CHR 0x5C # b) \<and> CHR 0x5C \<notin> set a \<longrightarrow>
               Default (out ! i) = JStr (a @ b)) \<and>
            getType ?L (pr_type (?props ! i)) False = Inr (OType (out ! i)) \<and>
            (\<exists>blk bs. md_children (pr_description (?props ! i)) = Some (blk # bs) \<and>
               concatTags ?L (md_children blk) False = Inr (ODescription (out ! i)))"
    by (elim exE conjE)
  have l0: "0 < length ?props" by simp
  note r0 = rows [THEN spec, THEN mp, OF l0]
  have "pr_name (?props ! 0) = ''options.'' @ ''units''" by (simp add: unitsProperty_def)
  with r0 [THEN conjunct1, THEN spec] have p: "Prop (out ! 0) = ''units''" by (rule mp)
  have "pr_default (?props ! 0) = Some (quoted ''kilometers'') \<and> quoted ''kilometers'' \<noteq> [] \<and>
        CHR 0x5C \<notin> set (quoted ''kilometers'')"
    by (simp add: unitsProperty_def quoted_def)
  with r0 [THEN conjunct2, THEN conjunct2, THEN conjunct2, THEN conjunct2, THEN conjunct1, THEN spec]
  have d: "Default (out ! 0) = JStr (quoted ''kilometers'')" by (rule mp)
  from r0 have "getType ?L (pr_type (?props ! 0)) False = Inr (OType (out ! 0))" by blast
  with ty have o: "OType (out ! 0) = JStr ''string''" by simp
  from out len p d o show ?thesis by (intro exI [of _ out]) simp
qed

text \<open>C4 as stated asks for the default \<^verbatim>\<open>kilometers\<close>, without the quotes.\<close>

theorem options_default_counterexample:
  "getOptions (\<lambda>k. None) optionsMeta =
     Inr (FArr [\<lparr>Prop = ''units'', OType = JStr ''string'',
                 Default = JStr (quoted ''kilometers''), ODescription = JStr ''units''\<rparr>]) \<and>
   quoted ''kilometers'' \<noteq> ''kilometers''"
  by (simp add: optionsMeta_def optionsParam_def unitsProperty_def getOptions_def optionEntry_def
      firstBlock_def blockNode_def textNode_def concatTags_def concatTag_def quoted_def
      backslash_def)

subsection \<open>C5: returns and throws\<close>

text \<open>
  C5 (as amended).  \<^verbatim>\<open>returns\<close> (and likewise \<^verbatim>\<open>throws\<close>) is \<^verbatim>\<open>false\<close> when
  the metadata has no such field, and an array that holds nothing when the field is one.
  When the description of every declared entry has a \<^verbatim>\<open>children\<close> array, and the
  type and the first block of every entry with descriptive text render, the field is an
  array with one element per declared entry, in place: \<^verbatim>\<open>false\<close> for an entry whose
  description has no children, and the record of the rendered type and the rendered first
  block for an entry that has some.
\<close>

theorem returns_throws_placeholders:
  "(mt_returns md = None \<longrightarrow> getReturns L md = Inr FFalse) \<and>
   (mt_throws md = None \<longrightarrow> getThrows L md = Inr FFalse) \<and>
   (\<forall>rs. (mt_returns md = Some rs \<or> mt_throws md = Some rs) \<and>
      (\<forall>r\<in>set rs. (\<exists>cs. md_children (tg_description r) = Some cs) \<and>
           (\<forall>b bs. md_children (tg_description r) = Some (b # bs) \<longrightarrow>
              (\<exists>t. getType L (tg_type r) False = Inr t) \<and>
              (\<exists>d. concatTags L (md_children b) False = Inr d))) \<longrightarrow>
      (\<exists>out. (mt_returns md = Some rs \<longrightarrow> getReturns L md = Inr (FArr out)) \<and>
             (mt_throws md = Some rs \<longrightarrow> getThrows L md = Inr (FArr out)) \<and>
             length out = length rs \<and>
             (\<forall>i<length rs.
                (md_children (tg_description (rs ! i)) = Some [] \<longrightarrow> out ! i = TagFalse) \<and>
                (\<forall>b bs. md_children (tg_description (rs ! i)) = Some (b # bs) \<longrightarrow>
                   (\<exists>t d. out ! i = TagRec t d \<and> getType L (tg_type (rs ! i)) False = Inr t \<and>
                          concatTags L (md_children b) False = Inr d))))) \<and>
   (mt_returns md = Some [] \<longrightarrow> getReturns L md = Inr (FArr [])) \<and>
   (mt_throws md = Some [] \<longrightarrow> getThrows L md = Inr (FArr []))"
proof (intro conjI allI impI)
  assume "mt_returns md = None"
  then show "getReturns L md = Inr FFalse" by (simp add: getReturns_def)
next
  assume "mt_throws md = None"
  then show "getThrows L md = Inr FFalse" by (simp add: getThrows_def)
next
  fix rs
  assume h: "(mt_returns md = Some rs \<or> mt_throws md = Some rs) \<and>
      (\<forall>r\<in>set rs. (\<exists>cs. md_children (tg_description r) = Some cs) \<and>
           (\<forall>b bs. md_children (tg_description r) = Some (b # bs) \<longrightarrow>
              (\<exists>t. getType L (tg_type r) False = Inr t) \<and>
              (\<exists>d. concatTags L (md_children b) False = Inr d)))"
  then have ok: "\<forall>r\<in>set rs. (\<exists>cs. md_children (tg_description r) = Some cs) \<and>
           (\<forall>b bs. md_children (tg_description r) = Some (b # bs) \<longrightarrow>
              (\<exists>t. getType L (tg_type r) False = Inr t) \<and>
              (\<exists>d. concatTags L (md_children b) False = Inr d))" by (rule conjunct2)
  from tag_array [OF ok] obtain out where out: "mapE (tagEntry L) rs = Inr out"
    and len: "length out = length rs"
    and ent: "\<forall>i<length rs.
                (md_children (tg_description (rs ! i)) = Some [] \<longrightarrow> out ! i = TagFalse) \<and>
                (\<forall>b bs. md_children (tg_description (rs ! i)) = Some (b # bs) \<longrightarrow>
                   (\<exists>t d. out ! i = TagRec t d \<and> getType L (tg_type (rs ! i)) False = Inr t \<and>
                          concatTags L (md_children b) False = Inr d))"
    by (elim exE conjE)
  have r: "mt_returns md = Some rs \<longrightarrow> getReturns L md = Inr (FArr out)"
    using out by (simp add: getReturns_def)
  have t: "mt_throws md = Some rs \<longrightarrow> getThrows L md = Inr (FArr out)"
    using out by (simp add: getThrows_def)
  show "\<exists>out. (mt_returns md = Some rs \<longrightarrow> getReturns L md = Inr (FArr out)) \<and>
             (mt_throws md = Some rs \<longrightarrow> getThrows L md = Inr (FArr out)) \<and>
             length out = length rs \<and>
             (\<forall>i<length rs.
                (md_children (tg_description (rs ! i)) = Some [] \<longrightarrow> out ! i = TagFalse) \<and>
                (\<forall>b bs. md_children (tg_description (rs ! i)) = Some (b # bs) \<longrightarrow>
                   (\<exists>t d. out ! i = TagRec t d \<and> getType L (tg_type (rs ! i)) False = Inr t \<and>
                          concatTags L (md_children b) False = Inr d)))"
    using r t len ent by (intro exI [of _ out] conjI)
next
  assume "mt_returns md = Some []"
  then show "getReturns L md = Inr (FArr [])" by (simp add: getReturns_def)
next
  assume "mt_throws md = Some []"
  then show "getThrows L md = Inr (FArr [])" by (simp add: getThrows_def)
qed

text \<open>The theorem at a symbol with two return values, the second without text, and
  no \<^verbatim>\<open>throws\<close>.\<close>

theorem returns_throws_placeholders_witness:
  "getReturns (\<lambda>k. None) returnsMeta =
     Inr (FArr [TagRec (JStr ''Number'') (JStr ''the distance''), TagFalse]) \<and>
   getThrows (\<lambda>k. None) returnsMeta = Inr FFalse"
proof -
  let ?L = "\<lambda>k::string. None::string option"
  let ?b = "blockNode [textNode ''the'', textNode ''distance'']"
  let ?r0 = "\<lparr>tg_type = Some (NameExpression ''Number''), tg_description = blockNode [?b]\<rparr>"
  let ?r1 = "\<lparr>tg_type = Some (NameExpression ''Feature''), tg_description = blockNode []\<rparr>"
  let ?rs = "[?r0, ?r1]"
  have rs: "mt_returns returnsMeta = Some ?rs" by (simp add: returnsMeta_def)
  have th: "mt_throws returnsMeta = None" by (simp add: returnsMeta_def sampleMeta_def)
  have t0: "getType ?L (Some (NameExpression ''Number'')) False = Inr (JStr ''Number'')"
    by simp
  have d0: "concatTags ?L (md_children ?b) False = Inr (JStr ''the distance'')"
    by (simp add: blockNode_def textNode_def concatTags_def concatTag_def)
  have ok: "\<forall>r\<in>set ?rs. (\<exists>cs. md_children (tg_description r) = Some cs) \<and>
           (\<forall>b bs. md_children (tg_description r) = Some (b # bs) \<longrightarrow>
              (\<exists>t. getType ?L (tg_type r) False = Inr t) \<and>
              (\<exists>d. concatTags ?L (md_children b) False = Inr d))"
    using d0 by (simp add: blockNode_def)
  note t = returns_throws_placeholders [of returnsMeta ?L]
  from t th have throws: "getThrows ?L returnsMeta = Inr FFalse" by blast
  from t rs ok obtain out where out: "getReturns ?L returnsMeta = Inr (FArr out)"
    and len: "length out = length ?rs"
    and ent: "\<forall>i<length ?rs.
                (md_children (tg_description (?rs ! i)) = Some [] \<longrightarrow> out ! i = TagFalse) \<and>
                (\<forall>b bs. md_children (tg_description (?rs ! i)) = Some (b # bs) \<longrightarrow>
                   (\<exists>t d. out ! i = TagRec t d \<and> getType ?L (tg_type (?rs ! i)) False = Inr t \<and>
                          concatTags ?L (md_children b) False = Inr d))"
    by blast
  have l0: "0 < length ?rs" and l1: "1 < length ?rs" by simp_all
  note e0 = ent [THEN spec, THEN mp, OF l0] and e1 = ent [THEN spec, THEN mp, OF l1]
  have "md_children (tg_description (?rs ! 1)) = Some []" by (simp add: blockNode_def)
  with e1 [THEN conjunct1] have o1: "out ! 1 = TagFalse" by (rule mp)
  have "md_children (tg_description (?rs ! 0)) = Some (?b # [])"
    by (simp add: blockNode_def)
  with e0 [THEN conjunct2, THEN spec, THEN spec]
  have "\<exists>t d. out ! 0 = TagRec t d \<and> getType ?L (tg_type (?rs ! 0)) False = Inr t \<and>
                          concatTags ?L (md_children ?b) False = Inr d"
    by (rule mp)
  then obtain t d where "out ! 0 = TagRec t d"
    "getType ?L (tg_type (?rs ! 0)) False = Inr t" "concatTags ?L (md_children ?b) False = Inr d"
    by (elim exE conjE)
  with t0 d0 have o0: "out ! 0 = TagRec (JStr ''Number'') (JStr ''the distance'')" by simp
  from len have "out = [out ! 0, out ! 1]" by (intro list_two) simp
  with o0 o1 have "out = [TagRec (JStr ''Number'') (JStr ''the distance''), TagFalse]" by simp
  with out throws show ?thesis by simp
qed

text \<open>C5 as stated asks for \<^verbatim>\<open>false\<close> whenever no return value is declared: with an
  array of return values that holds nothing the field is that array.\<close>

theorem returns_empty_array_counterexample:
  "getReturns (\<lambda>k. None) emptyReturnsMeta = Inr (FArr []) \<and>
   getReturns (\<lambda>k. None) emptyReturnsMeta \<noteq> Inr FFalse \<and>
   getThrows (\<lambda>k. None) emptyReturnsMeta = Inr (FArr []) \<and>
   getThrows (\<lambda>k. None) emptyReturnsMeta \<noteq> Inr FFalse"
  by (simp add: emptyReturnsMeta_def getReturns_def getThrows_def)

subsection \<open>C6: a union of Number and Feature\<close>

text \<open>
  C6.  Let the manifest's paths hold an entry whose name is \<^verbatim>\<open>FEATURE\<close> in upper case,
  with a link that is not empty (every entry of that name, in whatever case, with that
  link), and no entry whose name is \<^verbatim>\<open>NUMBER\<close> in upper case.  After the keys have
  been stored again in upper case, the union of the named types \<^verbatim>\<open>Number\<close> and
  \<^verbatim>\<open>Feature\<close>, rendered with links, is \<^verbatim>\<open>(Number | A)\<close> where \<^verbatim>\<open>A\<close> is the
  hyperlink to that link with the text \<^verbatim>\<open>Feature\<close>.
\<close>

theorem union_type_link:
  assumes "(k, url) \<in> set ps" and "toUpperCase k = ''FEATURE''" and "url \<noteq> []"
    and "\<forall>(k', v)\<in>set ps. toUpperCase k' = ''FEATURE'' \<longrightarrow> v = url"
    and "\<forall>(k', v)\<in>set ps. toUpperCase k' \<noteq> ''NUMBER''"
  shows "getType (upperPaths ps)
           (Some (UnionType [NameExpression ''Number'', NameExpression ''Feature''])) True =
         Inr (JStr (''(Number | '' @ anchor url ''Feature'' @ '')''))"
proof -
  have "toUpperCase ''NUMBER'' = ''NUMBER''"
    using toUpperCase_idem [of "''Number''"] by (simp only: toUpperCase_Number)
  with assms(5) have n: "upperPaths ps ''NUMBER'' = None" by (rule upperPaths_absent)
  from assms(1,2,4) have f: "upperPaths ps ''FEATURE'' = Some url" by (rule upperPaths_present)
  from n f assms(3) show ?thesis by (rule union_number_feature)
qed

text \<open>The theorem at the manifest that knows \<^verbatim>\<open>Feature\<close>, with the rendered
  string written out.\<close>

theorem union_type_link_witness:
  \<open>getType (upperPaths samplePaths)
     (Some (UnionType [NameExpression ''Number'', NameExpression ''Feature''])) True =
   Inr (JStr ''(Number | <a target="_blank" href="http://geojson.org/geojson-spec.html#feature-objects">Feature</a>)'')\<close>
proof -
  let ?url = "''http://geojson.org/geojson-spec.html#feature-objects''"
  have 1: "(''Feature'', ?url) \<in> set samplePaths" by (simp add: samplePaths_def)
  have 3: "?url \<noteq> []" by simp
  have 4: "\<forall>(k', v)\<in>set samplePaths. toUpperCase k' = ''FEATURE'' \<longrightarrow> v = ?url"
    by (simp add: samplePaths_def)
  have 5: "\<forall>(k', v)\<in>set samplePaths. toUpperCase k' \<noteq> ''NUMBER''"
    by (simp add: samplePaths_def toUpperCase_Feature)
  from union_type_link [OF 1 toUpperCase_Feature 3 4 5] show ?thesis
    by (simp add: anchor_def)
qed

subsection \<open>C7: the order of the toc\<close>

text \<open>
  C7.  Whenever the run writes a configuration, its groups are the groups of the
  manifest's toc, in order: every group marker of the toc gives one group, named by the
  marker, whose modules are named, in order, by the items between that marker and the
  next; no item stands before the first marker.  Read back group by group, each name
  followed by the names of its modules, the configuration is the toc itself: the
  normaliser fills entries in place and never reorders, inserts or deletes one.
\<close>

theorem toc_order_preserved:
  assumes "written (createConfig docs packages) = Some config"
  shows "specGroups (mf_toc docs) = ([], groupsOf config) \<and> tocOf config = mf_toc docs"
proof (cases "loadToc (mf_toc docs)")
  case (Inl e)
  with assms show ?thesis by (simp add: createConfig_def)
next
  case (Inr gs)
  with assms have w: "written (queue (upperPaths (mf_paths docs)) packages gs []) = Some config"
    by (simp add: createConfig_def)
  from w have g: "groupsOf config = groupsOf gs" by (rule queue_groupsOf)
  from w have t: "tocOf config = tocOf gs" by (rule queue_tocOf)
  from Inr have toc: "tocOf gs = mf_toc docs" by (rule loadToc_tocOf)
  from Inr have "wellGrouped gs" by (rule loadToc_wellGrouped)
  then have "specGroups (tocOf gs) = ([], groupsOf gs)" by (rule specGroups_tocOf)
  with g t toc show ?thesis by simp
qed

text \<open>The theorem at the sample manifest and packages, whose run writes a
  configuration of two groups.\<close>

theorem toc_order_preserved_witness:
  "\<exists>config. written (createConfig sampleManifest samplePackages) = Some config \<and>
     groupsOf config = [(''Measurement'', [TocName ''along'', TocName ''area'']),
                        (''Helper'', [TocName ''feature''])] \<and>
     tocOf config = [TocGroup ''Measurement'', TocName ''along'', TocName ''area'',
                     TocGroup ''Helper'', TocName ''feature'']"
proof -
  from sample_written obtain config
    where w: "written (createConfig sampleManifest samplePackages) = Some config" by blast
  from toc_order_preserved [OF w]
  have s: "specGroups (mf_toc sampleManifest) = ([], groupsOf config)"
    and t: "tocOf config = mf_toc sampleManifest" by simp_all
  from s have "groupsOf config = [(''Measurement'', [TocName ''along'', TocName ''area'']),
                        (''Helper'', [TocName ''feature''])]"
    by (simp add: sampleManifest_def)
  moreover from t have "tocOf config = [TocGroup ''Measurement'', TocName ''along'',
      TocName ''area'', TocGroup ''Helper'', TocName ''feature'']"
    by (simp add: sampleManifest_def)
  ultimately show ?thesis using w by blast
qed

subsection \<open>C8: placeholders without metadata\<close>

text \<open>
  C8.  In a configuration the run writes, a module entry whose name is the name of no
  symbol documented by any package is exactly \<^verbatim>\<open>{ name, hidden: false }\<close>, with no
  normalised field.  A metadata entry whose name is the name of no module entry leaves the
  tree as it is and raises nothing, whatever it holds.
\<close>

theorem unmatched_placeholder_untouched:
  "(\<forall>config g m. written (createConfig docs packages) = Some config \<and> g \<in> set config \<and>
       m \<in> set (g_modules g) \<and>
       (\<forall>p\<in>set packages. \<forall>ds. pckg_docs p = Resolved (Some ds) \<longrightarrow>
          (\<forall>md\<in>set ds. mo_name m \<noteq> TocName (mt_name md))) \<longrightarrow>
       m = \<lparr>mo_name = mo_name m, mo_hidden = False, mo_info = None\<rparr>) \<and>
   (\<forall>(modules :: tocGroup list) md. (\<forall>g\<in>set modules. \<forall>m\<in>set (g_modules g). mo_name m \<noteq> TocName (mt_name md)) \<longrightarrow>
       docStep L npm parent modules md = Inr modules)"
proof (intro conjI allI impI)
  fix config g m
  assume h: "written (createConfig docs packages) = Some config \<and> g \<in> set config \<and>
       m \<in> set (g_modules g) \<and>
       (\<forall>p\<in>set packages. \<forall>ds. pckg_docs p = Resolved (Some ds) \<longrightarrow>
          (\<forall>md\<in>set ds. mo_name m \<noteq> TocName (mt_name md)))"
  then have w: "written (createConfig docs packages) = Some config" and g: "g \<in> set config"
    and m: "m \<in> set (g_modules g)"
    and un: "\<forall>p\<in>set packages. \<forall>ds. pckg_docs p = Resolved (Some ds) \<longrightarrow>
          (\<forall>md\<in>set ds. mo_name m \<noteq> TocName (mt_name md))" by blast+
  from un have notin: "mo_name m \<notin> TocName ` documented packages"
    unfolding documented_def by blast
  have "untouched (documented packages) config"
  proof (cases "loadToc (mf_toc docs)")
    case (Inl e)
    with w show ?thesis by (simp add: createConfig_def)
  next
    case (Inr gs)
    with w have q: "written (queue (upperPaths (mf_paths docs)) packages gs []) = Some config"
      by (simp add: createConfig_def)
    from queue_untouched [OF q loadToc_untouched [OF Inr]] show ?thesis by simp
  qed
  with g m notin have "mo_hidden m = False \<and> mo_info m = None" unfolding untouched_def by blast
  then show "m = \<lparr>mo_name = mo_name m, mo_hidden = False, mo_info = None\<rparr>" by (cases m) simp
next
  fix modules :: "tocGroup list" and md :: metadata
  assume "\<forall>g\<in>set modules. \<forall>m\<in>set (g_modules g). mo_name m \<noteq> TocName (mt_name md)"
  then have "getModuleObj modules (mt_name md) = None" by (simp add: getModuleObj_None)
  then show "docStep L npm parent modules md = Inr modules" by (simp add: docStep_def)
qed

text \<open>The theorem at the sample run: \<^verbatim>\<open>area\<close> is in the toc and no package
  documents it.\<close>

theorem unmatched_placeholder_untouched_witness:
  "\<exists>config g. written (createConfig sampleManifest samplePackages) = Some config \<and>
     g \<in> set config \<and>
     \<lparr>mo_name = TocName ''area'', mo_hidden = False, mo_info = None\<rparr> \<in> set (g_modules g)"
proof -
  from sample_has_area obtain config g m
    where w: "written (createConfig sampleManifest samplePackages) = Some config"
      and g: "g \<in> set config" and m: "m \<in> set (g_modules g)"
      and n: "mo_name m = TocName ''area''"
    by (auto simp: list_ex_iff split: option.splits)
  have un: "\<forall>p\<in>set samplePackages. \<forall>ds. pckg_docs p = Resolved (Some ds) \<longrightarrow>
          (\<forall>md\<in>set ds. mo_name m \<noteq> TocName (mt_name md))"
    unfolding n by (simp add: samplePackages_def sampleMeta_def)
  from w g m un
  have h: "written (createConfig sampleManifest samplePackages) = Some config \<and> g \<in> set config \<and>
       m \<in> set (g_modules g) \<and>
       (\<forall>p\<in>set samplePackages. \<forall>ds. pckg_docs p = Resolved (Some ds) \<longrightarrow>
          (\<forall>md\<in>set ds. mo_name m \<noteq> TocName (mt_name md)))"
    by (intro conjI)
  from unmatched_placeholder_untouched [of sampleManifest samplePackages, THEN conjunct1,
      THEN spec, THEN spec, THEN spec, THEN mp, OF h]
  have "m = \<lparr>mo_name = mo_name m, mo_hidden = False, mo_info = None\<rparr>" .
  with n have "m = \<lparr>mo_name = TocName ''area'', mo_hidden = False, mo_info = None\<rparr>" by simp
  with w g m show ?thesis by blast
qed

subsection \<open>C9: a rejected extraction\<close>

text \<open>
  C9.  If the extraction of a package is rejected, nothing is written, and no package
  after it is started: the packages started are a prefix of the packages up to and
  including the rejected one.  If a configuration is written, the extraction of every
  package has resolved with documentation, and every package was started, in order.
\<close>

theorem extraction_failure_no_output:
  "(\<forall>pre p post. packages = pre @ p # post \<and> pckg_docs p = Rejected \<longrightarrow>
      written (createConfig docs packages) = None \<and>
      (\<exists>k\<le>Suc (length pre).
         parsed (createConfig docs packages) = take k (map pckg_name packages))) \<and>
   (\<forall>config. written (createConfig docs packages) = Some config \<longrightarrow>
      (\<forall>p\<in>set packages. \<exists>ds. pckg_docs p = Resolved (Some ds)) \<and>
      parsed (createConfig docs packages) = map pckg_name packages)"
proof (rule conjI)
  show "\<forall>pre p post. packages = pre @ p # post \<and> pckg_docs p = Rejected \<longrightarrow>
      written (createConfig docs packages) = None \<and>
      (\<exists>k\<le>Suc (length pre).
         parsed (createConfig docs packages) = take k (map pckg_name packages))"
  proof (intro allI impI)
    fix pre p post
    assume h: "packages = pre @ p # post \<and> pckg_docs p = Rejected"
    then have eq: "packages = pre @ p # post" and rej: "pckg_docs p = Rejected" by blast+
    show "written (createConfig docs packages) = None \<and>
        (\<exists>k\<le>Suc (length pre).
           parsed (createConfig docs packages) = take k (map pckg_name packages))"
    proof (cases "loadToc (mf_toc docs)")
      case (Inl e)
      then have "written (createConfig docs packages) = None"
        and "parsed (createConfig docs packages) = take 0 (map pckg_name packages)"
        by (simp_all add: createConfig_def)
      then show ?thesis by (intro conjI exI [of _ 0]) simp_all
    next
      case (Inr gs)
      from queue_rejected [OF rej, of "upperPaths (mf_paths docs)" pre post gs "[]"] Inr
      show ?thesis unfolding eq by (simp add: createConfig_def)
    qed
  qed
next
  show "\<forall>config. written (createConfig docs packages) = Some config \<longrightarrow>
      (\<forall>p\<in>set packages. \<exists>ds. pckg_docs p = Resolved (Some ds)) \<and>
      parsed (createConfig docs packages) = map pckg_name packages"
  proof (intro allI impI)
    fix config
    assume w: "written (createConfig docs packages) = Some config"
    show "(\<forall>p\<in>set packages. \<exists>ds. pckg_docs p = Resolved (Some ds)) \<and>
        parsed (createConfig docs packages) = map pckg_name packages"
    proof (cases "loadToc (mf_toc docs)")
      case (Inl e)
      with w show ?thesis by (simp add: createConfig_def)
    next
      case (Inr gs)
      with w have "written (queue (upperPaths (mf_paths docs)) packages gs []) = Some config"
        by (simp add: createConfig_def)
      from queue_written [OF this] Inr show ?thesis by (simp add: createConfig_def)
    qed
  qed
qed

text \<open>The theorem at a run of three packages whose second one is rejected.\<close>

theorem extraction_failure_no_output_witness:
  "written (createConfig sampleManifest rejectingPackages) = None \<and>
   parsed (createConfig sampleManifest rejectingPackages) = [''@turf/along'', ''@turf/area'']"
proof -
  let ?pre = "[\<lparr>pckg_name = ''@turf/along'', pckg_docs = Resolved (Some [sampleMeta])\<rparr>]"
  let ?p = "\<lparr>pckg_name = ''@turf/area'', pckg_docs = Rejected\<rparr>"
  let ?post = "[\<lparr>pckg_name = ''@turf/helpers'',
       pckg_docs = Resolved (Some [sampleMeta\<lparr>mt_name := ''feature''\<rparr>])\<rparr>]"
  have h: "rejectingPackages = ?pre @ ?p # ?post \<and> pckg_docs ?p = Rejected"
    by (simp add: rejectingPackages_def)
  from extraction_failure_no_output [of rejectingPackages sampleManifest, THEN conjunct1,
      THEN spec, THEN spec, THEN spec, THEN mp, OF h]
  have "written (createConfig sampleManifest rejectingPackages) = None" by (rule conjunct1)
  with rejecting_parsed show ?thesis by simp
qed

subsection \<open>C10: missing documentation\<close>

text \<open>
  C10 asks that missing documentation never raises.  A symbol of the toc documented
  without any description text makes \<^verbatim>\<open>getDescription\<close> raise: it reads
  \<^verbatim>\<open>children[0].children\<close> without the test on \<^verbatim>\<open>children.length\<close> that
  \<^verbatim>\<open>getReturns\<close>, \<^verbatim>\<open>getThrows\<close> and \<^verbatim>\<open>getParams\<close> make, and the run writes
  nothing.  In the same way \<^verbatim>\<open>getOptions\<close> raises on an \<^verbatim>\<open>options\<close> parameter
  that documents no property.
\<close>

theorem missing_description_raises:
  "getDescription L undescribedMeta = Inl TypeError \<and>
   written (createConfig sampleManifest
     [\<lparr>pckg_name = ''@turf/along'', pckg_docs = Resolved (Some [undescribedMeta])\<rparr>]) = None \<and>
   getOptions L bareOptionsMeta = Inl TypeError"
proof (intro conjI)
  show "getDescription L undescribedMeta = Inl TypeError"
    by (simp add: undescribedMeta_def getDescription_def firstBlock_def blockNode_def)
  show "written (createConfig sampleManifest
     [\<lparr>pckg_name = ''@turf/along'', pckg_docs = Resolved (Some [undescribedMeta])\<rparr>]) = None"
    by code_simp
  show "getOptions L bareOptionsMeta = Inl TypeError"
    by (simp add: bareOptionsMeta_def getOptions_def optionsParam_def)
qed

end
